theory Spec2Isabelle
  imports Main
begin

section \<open>Python strings and values\<close>

text \<open>
  A Python \<open>str\<close> is a sequence of Unicode code points, so a string is modelled as a list
  of code points (\<open>nat\<close>); \<open>py\<close> turns an ASCII literal into such a list. Code points
  are written in decimal: 34 is the double quote, 58 the colon, 92 the backslash.
\<close>

type_synonym pystr = "nat list"

definition py :: "string \<Rightarrow> pystr" where
  "py s = map of_char s"

text \<open>
  \<open>str.isspace\<close> on one character, which is also what \<open>\s\<close> matches in a \<open>str\<close> pattern
  and what \<open>str.strip()\<close> removes: U+0009..U+000D, U+001C..U+0020, U+0085, U+00A0, U+1680,
  U+2000..U+200A, U+2028, U+2029, U+202F, U+205F, U+3000.
\<close>

definition isspace :: "nat \<Rightarrow> bool" where
  "isspace c \<longleftrightarrow>
     (9 \<le> c \<and> c \<le> 13) \<or> (28 \<le> c \<and> c \<le> 32) \<or> c = 133 \<or> c = 160 \<or> c = 5760 \<or>
     (8192 \<le> c \<and> c \<le> 8202) \<or> c = 8232 \<or> c = 8233 \<or> c = 8239 \<or> c = 8287 \<or> c = 12288"

text \<open>
  The values \<open>json.loads\<close> can produce, plus \<open>None\<close>. A float keeps the decimal number
  its literal denotes (sign, digits, power of ten) instead of the rounded binary64 value;
  \<open>NaN\<close>, \<open>Infinity\<close> and \<open>-Infinity\<close> are the three constants the decoder accepts.
  A dict is an association list in insertion order with distinct keys.
\<close>

datatype pyfloat = Dec bool nat int | NaN | Infinity | NegInfinity

datatype pyval =
    PNone
  | PBool bool
  | PInt int
  | PFloat pyfloat
  | PStr pystr
  | PList "pyval list"
  | PDict "(pystr \<times> pyval) list"

text \<open>
  \<open>float(s) == 0.0\<close> for a decimal literal: the nearest binary64 value is zero exactly when
  the magnitude is at most \<open>2 ^ -1075\<close>, half the smallest subnormal (a tie rounds to even,
  which is zero).
\<close>

fun float_is_zero :: "pyfloat \<Rightarrow> bool" where
  "float_is_zero (Dec neg m e) =
     (m = 0 \<or> (e < 0 \<and> m * 2 ^ 1075 \<le> 10 ^ nat (- e)))"
| "float_is_zero _ = False"

text \<open>Truth value testing, as \<open>if key:\<close> does it.\<close>

fun truthy :: "pyval \<Rightarrow> bool" where
  "truthy PNone = False"
| "truthy (PBool b) = b"
| "truthy (PInt i) = (i \<noteq> 0)"
| "truthy (PFloat f) = (\<not> float_is_zero f)"
| "truthy (PStr s) = (s \<noteq> [])"
| "truthy (PList xs) = (xs \<noteq> [])"
| "truthy (PDict kvs) = (kvs \<noteq> [])"

text \<open>
  Exceptions, by class. \<open>JSONDecodeError\<close> and \<open>UnicodeEncodeError\<close> are subclasses of
  \<open>ValueError\<close>; \<open>RequestException\<close> stands for the faults \<open>requests.get\<close> raises (it
  derives from \<open>OSError\<close>); \<open>KeyboardInterrupt\<close> and \<open>SystemExit\<close> derive from
  \<open>BaseException\<close> only, so \<open>except Exception\<close> does not catch them.
\<close>

datatype py_exn =
    JSONDecodeError
  | ValueError
  | UnicodeEncodeError
  | RecursionError
  | AttributeError
  | RequestException
  | OSError
  | KeyboardInterrupt
  | SystemExit

fun is_Exception :: "py_exn \<Rightarrow> bool" where
  "is_Exception KeyboardInterrupt = False"
| "is_Exception SystemExit = False"
| "is_Exception _ = True"

section \<open>Regular expressions\<close>

text \<open>
  The fragment of \<open>re\<close> the two patterns use, with Python's backtracking order: a literal,
  a greedy \<open>c*\<close> and \<open>c+\<close> over a character class, a lazy \<open>c+?\<close>. \<open>rx_match\<close> matches a
  sequence of items at the start of a string and returns the piece each item consumed;
  a greedy item tries the longest piece first, a lazy one the shortest.
\<close>

datatype rx_item =
    Lit pystr
  | Star "nat \<Rightarrow> bool"
  | Plus "nat \<Rightarrow> bool"
  | LazyPlus "nat \<Rightarrow> bool"

fun first_some :: "('a \<Rightarrow> 'b option) \<Rightarrow> 'a list \<Rightarrow> 'b option" where
  "first_some f [] = None"
| "first_some f (x # xs) = (case f x of Some r \<Rightarrow> Some r | None \<Rightarrow> first_some f xs)"

definition consume :: "nat \<Rightarrow> pystr \<Rightarrow> (pystr \<Rightarrow> pystr list option) \<Rightarrow> pystr list option" where
  "consume n s k = map_option ((#) (take n s)) (k (drop n s))"

fun rx_step :: "rx_item \<Rightarrow> (pystr \<Rightarrow> pystr list option) \<Rightarrow> pystr \<Rightarrow> pystr list option" where
  "rx_step (Lit l) k s = (if take (length l) s = l then consume (length l) s k else None)"
| "rx_step (Star p) k s =
     first_some (\<lambda>n. consume n s k) (rev [0 ..< Suc (length (takeWhile p s))])"
| "rx_step (Plus p) k s =
     first_some (\<lambda>n. consume n s k) (rev [1 ..< Suc (length (takeWhile p s))])"
| "rx_step (LazyPlus p) k s =
     first_some (\<lambda>n. consume n s k) [1 ..< Suc (length (takeWhile p s))]"

primrec rx_match :: "rx_item list \<Rightarrow> pystr \<Rightarrow> pystr list option" where
  "rx_match [] s = Some []"
| "rx_match (it # its) s = rx_step it (rx_match its) s"

text \<open>
  \<open>re.search(pattern, text)\<close> followed by \<open>m.group(1)\<close>, for a pattern with one group:
  the pattern is given as the items before the group, the items of the group and the
  items after it. The search tries the start positions \<open>0, 1, ..., len(text)\<close> in order
  and stops at the first position where the pattern matches.
\<close>

definition group1 :: "rx_item list \<Rightarrow> rx_item list \<Rightarrow> pystr list \<Rightarrow> pystr" where
  "group1 pre grp segs = concat (take (length grp) (drop (length pre) segs))"

definition re_search_group1 ::
  "rx_item list \<Rightarrow> rx_item list \<Rightarrow> rx_item list \<Rightarrow> pystr \<Rightarrow> pystr option" where
  "re_search_group1 pre grp post text =
     map_option (group1 pre grp)
       (first_some (\<lambda>i. rx_match (pre @ grp @ post) (drop i text)) [0 ..< Suc (length text)])"

section \<open>Key extraction\<close>

subsection \<open>The direct literal\<close>

text \<open>
  \<open>extract_string\<close>: the pattern is \<open>"<key>"\s*:\s*"([^"]+)"\<close> with the key escaped, so
  the key matches literally. The result is the group, or \<open>None\<close>.
\<close>

definition extract_string :: "pystr \<Rightarrow> pystr \<Rightarrow> pyval" where
  "extract_string key text =
     (case re_search_group1
             [Lit ([34] @ key @ [34]), Star isspace, Lit [58], Star isspace, Lit [34]]
             [Plus (\<lambda>c. c \<noteq> 34)]
             [Lit [34]]
             text of
        Some g \<Rightarrow> PStr g
      | None \<Rightarrow> PNone)"

subsection \<open>Decoding JSON\<close>

text \<open>
  \<open>json.loads\<close> on a \<open>str\<close>, as the standard decoder does it (strict mode, no hooks).
  Two limits of the interpreter decide whether a document is decoded or an exception is
  raised, and are parameters here: how many nested containers the decoder may still enter
  before \<open>RecursionError\<close>, and \<open>sys.get_int_max_str_digits()\<close> (0 means no limit; an
  integer literal with more digits raises \<open>ValueError\<close>).
\<close>

record interp =
  max_depth :: nat
  int_max_str_digits :: nat

definition json_ws :: "nat \<Rightarrow> bool" where
  "json_ws c \<longleftrightarrow> c = 32 \<or> c = 9 \<or> c = 10 \<or> c = 13"

definition isdigit :: "nat \<Rightarrow> bool" where
  "isdigit c \<longleftrightarrow> 48 \<le> c \<and> c \<le> 57"

definition hexval :: "nat \<Rightarrow> nat option" where
  "hexval c =
     (if 48 \<le> c \<and> c \<le> 57 then Some (c - 48)
      else if 97 \<le> c \<and> c \<le> 102 then Some (c - 87)
      else if 65 \<le> c \<and> c \<le> 70 then Some (c - 55)
      else None)"

text \<open>The four hexadecimal digits of a \<open>\uXXXX\<close> escape.\<close>

definition hex4 :: "pystr \<Rightarrow> nat option" where
  "hex4 s =
     (case map hexval (take 4 s) of
        [Some a, Some b, Some c, Some d] \<Rightarrow> Some (((a * 16 + b) * 16 + c) * 16 + d)
      | _ \<Rightarrow> None)"

definition unescape :: "nat \<Rightarrow> nat option" where
  "unescape e =
     (if e = 34 \<or> e = 92 \<or> e = 47 then Some e
      else if e = 98 then Some 8
      else if e = 102 then Some 12
      else if e = 110 then Some 10
      else if e = 114 then Some 13
      else if e = 116 then Some 9
      else None)"

text \<open>
  The body of a JSON string, after its opening quote: the decoded string and the number
  of characters read, closing quote included. A control character below U+0020 is
  refused (strict mode); a high surrogate escape directly followed by a low surrogate
  escape is one code point.
\<close>

function scanstring :: "pystr \<Rightarrow> nat \<Rightarrow> pystr \<Rightarrow> (pystr \<times> nat) option" where
  "scanstring acc n [] = None"
| "scanstring acc n (c # cs) =
     (if c = 34 then Some (rev acc, Suc n)
      else if c = 92 then
        (case cs of
           [] \<Rightarrow> None
         | e # cs' \<Rightarrow>
             if e = 117 then
               (case hex4 cs' of
                  None \<Rightarrow> None
                | Some u \<Rightarrow>
                    if 55296 \<le> u \<and> u \<le> 56319 \<and> take 2 (drop 4 cs') = [92, 117] then
                      (case hex4 (drop 6 cs') of
                         None \<Rightarrow> None
                       | Some u2 \<Rightarrow>
                           if 56320 \<le> u2 \<and> u2 \<le> 57343
                           then scanstring
                                  ((65536 + (u - 55296) * 1024 + (u2 - 56320)) # acc)
                                  (n + 12) (drop 10 cs')
                           else scanstring (u # acc) (n + 6) (drop 4 cs'))
                    else scanstring (u # acc) (n + 6) (drop 4 cs'))
             else
               (case unescape e of
                  None \<Rightarrow> None
                | Some d \<Rightarrow> scanstring (d # acc) (n + 2) cs'))
      else if c < 32 then None
      else scanstring (c # acc) (Suc n) cs)"
  by pat_completeness auto
termination
  by (relation "measure (\<lambda>(acc, n, s). length s)") auto

definition digits_val :: "pystr \<Rightarrow> nat" where
  "digits_val ds = foldl (\<lambda>a d. a * 10 + (d - 48)) 0 ds"

text \<open>
  A number that starts with the character \<open>c\<close> (a minus sign or a digit) followed by
  \<open>cs\<close>. \<open>number_parts\<close> gives the sign, the digits of the integer part, of the fraction
  and of the exponent with its sign, and what follows the number. A fraction needs a
  digit after the point and an exponent a digit after its sign; otherwise the number
  ends before them. The integer part is empty when no number starts here.
\<close>

definition number_parts ::
  "nat \<Rightarrow> pystr \<Rightarrow> bool \<times> pystr \<times> pystr \<times> pystr \<times> pystr \<times> pystr" where
  "number_parts c cs =
     (let neg = (c = 45);
          s1 = (if neg then cs else c # cs);
          ipart = (case s1 of
                     [] \<Rightarrow> []
                   | d # t \<Rightarrow> if 49 \<le> d \<and> d \<le> 57 then takeWhile isdigit s1
                              else if d = 48 then [48] else []);
          s2 = drop (length ipart) s1;
          fpart = (case s2 of
                     p # d # t \<Rightarrow> if p = 46 \<and> isdigit d then takeWhile isdigit (d # t) else []
                   | _ \<Rightarrow> []);
          s3 = (if fpart = [] then s2 else drop (Suc (length fpart)) s2);
          esign = (case s3 of
                     e # sg # t \<Rightarrow> if (e = 101 \<or> e = 69) \<and> (sg = 43 \<or> sg = 45) then [sg] else []
                   | _ \<Rightarrow> []);
          epart = (case s3 of
                     e # t \<Rightarrow> if e = 101 \<or> e = 69
                                then takeWhile isdigit (drop (length esign) t) else []
                   | _ \<Rightarrow> []);
          s4 = (if epart = [] then s3 else drop (Suc (length esign + length epart)) s3)
      in (neg, ipart, fpart, esign, epart, s4))"

text \<open>
  The value of the number: an \<open>int\<close> when there is neither fraction nor exponent (the
  conversion raises \<open>ValueError\<close> beyond the digit limit, which applies from 641 digits
  on), a \<open>float\<close> otherwise.
\<close>

definition number_value ::
  "interp \<Rightarrow> bool \<Rightarrow> pystr \<Rightarrow> pystr \<Rightarrow> pystr \<Rightarrow> pystr \<Rightarrow> py_exn + pyval" where
  "number_value env neg ipart fpart esign epart =
     (if fpart = [] \<and> epart = [] then
        (if 0 < int_max_str_digits env \<and> 640 < length ipart
            \<and> int_max_str_digits env < length ipart
         then Inl ValueError
         else Inr (PInt (if neg then - int (digits_val ipart) else int (digits_val ipart))))
      else
        Inr (PFloat (Dec neg (digits_val (ipart @ fpart))
               ((if esign = [45] then - int (digits_val epart) else int (digits_val epart))
                  - int (length fpart)))))"

text \<open>The number and how many characters of \<open>cs\<close> it takes.\<close>

definition match_number :: "interp \<Rightarrow> nat \<Rightarrow> pystr \<Rightarrow> ((py_exn + pyval) \<times> nat) option" where
  "match_number env c cs =
     (case number_parts c cs of
        (neg, ipart, fpart, esign, epart, s4) \<Rightarrow>
          if ipart = [] then None
          else Some (number_value env neg ipart fpart esign epart,
                     length (c # cs) - length s4 - 1))"

datatype token =
    TLBrace | TRBrace | TLBracket | TRBracket | TColon | TComma
  | TString pystr
  | TAtom pyval
  | TBad py_exn

text \<open>
  The token that starts with the character \<open>c\<close> followed by \<open>cs\<close>, and how many
  characters of \<open>cs\<close> belong to it; \<open>TBad\<close> where no token starts, with the exception
  that reading it raises.
\<close>

definition next_token :: "interp \<Rightarrow> nat \<Rightarrow> pystr \<Rightarrow> token \<times> nat" where
  "next_token env c cs =
     (if c = 123 then (TLBrace, 0)
      else if c = 125 then (TRBrace, 0)
      else if c = 91 then (TLBracket, 0)
      else if c = 93 then (TRBracket, 0)
      else if c = 58 then (TColon, 0)
      else if c = 44 then (TComma, 0)
      else if c = 34 then
        (case scanstring [] 0 cs of
           None \<Rightarrow> (TBad JSONDecodeError, 0)
         | Some (str, n) \<Rightarrow> (TString str, n))
      else if c # take 3 cs = py ''null'' then (TAtom PNone, 3)
      else if c # take 3 cs = py ''true'' then (TAtom (PBool True), 3)
      else if c # take 4 cs = py ''false'' then (TAtom (PBool False), 4)
      else if c # take 2 cs = py ''NaN'' then (TAtom (PFloat NaN), 2)
      else if c # take 7 cs = py ''Infinity'' then (TAtom (PFloat Infinity), 7)
      else if c # take 8 cs = py ''-Infinity'' then (TAtom (PFloat NegInfinity), 8)
      else
        (case match_number env c cs of
           None \<Rightarrow> (TBad JSONDecodeError, 0)
         | Some (Inl e, n) \<Rightarrow> (TBad e, n)
         | Some (Inr v, n) \<Rightarrow> (TAtom v, n)))"

text \<open>
  The tokens of a document, left to right; the list ends with \<open>TBad\<close> at the first place
  where no token starts. Only space, tab, line feed and carriage return separate tokens.
\<close>

function lex :: "interp \<Rightarrow> pystr \<Rightarrow> token list" where
  "lex env [] = []"
| "lex env (c # cs) =
     (if json_ws c then lex env cs
      else
        (case next_token env c cs of
           (TBad e, n) \<Rightarrow> [TBad e]
         | (t, n) \<Rightarrow> t # lex env (drop n cs)))"
  by pat_completeness auto
termination
  by (relation "measure (\<lambda>(env, s). length s)") auto

text \<open>\<open>d[k] = v\<close> on a dict: an existing key keeps its place and takes the new value.\<close>

fun dict_setitem :: "(pystr \<times> pyval) list \<Rightarrow> pystr \<Rightarrow> pyval \<Rightarrow> (pystr \<times> pyval) list" where
  "dict_setitem [] k v = [(k, v)]"
| "dict_setitem ((k', v') # kvs) k v =
     (if k' = k then (k, v) # kvs else (k', v') # dict_setitem kvs k v)"

text \<open>
  The decoder as a machine over the tokens. The stack holds the containers that are
  open: an array with the elements read so far, or an object with the members read so
  far and the key whose value is being read. The mode says what may come next.
\<close>

datatype frame =
    InArray "pyval list"
  | InObject "(pystr \<times> pyval) list" "pystr option"

datatype mode =
    WantValue
  | WantValueOrClose
  | WantKey
  | WantKeyOrClose
  | WantColon
  | AfterValue
  | Finished pyval
  | Failed py_exn

text \<open>A value is complete: it is the document, or it goes into the innermost container.\<close>

fun complete :: "pyval \<Rightarrow> frame list \<Rightarrow> mode \<times> frame list" where
  "complete v [] = (Finished v, [])"
| "complete v (InArray els # st) = (AfterValue, InArray (els @ [v]) # st)"
| "complete v (InObject kvs (Some k) # st) = (AfterValue, InObject (dict_setitem kvs k v) None # st)"
| "complete v (InObject kvs None # st) = (Failed JSONDecodeError, InObject kvs None # st)"

definition begin_value :: "interp \<Rightarrow> token \<Rightarrow> frame list \<Rightarrow> mode \<times> frame list" where
  "begin_value env t st =
     (case t of
        TAtom v \<Rightarrow> complete v st
      | TString s \<Rightarrow> complete (PStr s) st
      | TLBracket \<Rightarrow>
          if length st < max_depth env then (WantValueOrClose, InArray [] # st)
          else (Failed RecursionError, st)
      | TLBrace \<Rightarrow>
          if length st < max_depth env then (WantKeyOrClose, InObject [] None # st)
          else (Failed RecursionError, st)
      | TBad e \<Rightarrow> (Failed e, st)
      | _ \<Rightarrow> (Failed JSONDecodeError, st))"

definition begin_key :: "token \<Rightarrow> frame list \<Rightarrow> mode \<times> frame list" where
  "begin_key t st =
     (case (t, st) of
        (TString k, InObject kvs None # st') \<Rightarrow> (WantColon, InObject kvs (Some k) # st')
      | _ \<Rightarrow> (Failed JSONDecodeError, st))"

fun decode_step :: "interp \<Rightarrow> mode \<times> frame list \<Rightarrow> token \<Rightarrow> mode \<times> frame list" where
  "decode_step env (WantValue, st) t = begin_value env t st"
| "decode_step env (WantValueOrClose, st) t =
     (case (t, st) of
        (TRBracket, InArray els # st') \<Rightarrow> complete (PList els) st'
      | _ \<Rightarrow> begin_value env t st)"
| "decode_step env (WantKey, st) t = begin_key t st"
| "decode_step env (WantKeyOrClose, st) t =
     (case (t, st) of
        (TRBrace, InObject kvs None # st') \<Rightarrow> complete (PDict kvs) st'
      | _ \<Rightarrow> begin_key t st)"
| "decode_step env (WantColon, st) t =
     (case t of TColon \<Rightarrow> (WantValue, st) | _ \<Rightarrow> (Failed JSONDecodeError, st))"
| "decode_step env (AfterValue, st) t =
     (case (t, st) of
        (TComma, InArray els # st') \<Rightarrow> (WantValue, st)
      | (TRBracket, InArray els # st') \<Rightarrow> complete (PList els) st'
      | (TComma, InObject kvs None # st') \<Rightarrow> (WantKey, st)
      | (TRBrace, InObject kvs None # st') \<Rightarrow> complete (PDict kvs) st'
      | _ \<Rightarrow> (Failed JSONDecodeError, st))"
| "decode_step env (Finished v, st) t = (Failed JSONDecodeError, st)"
| "decode_step env (Failed e, st) t = (Failed e, st)"

definition json_loads :: "interp \<Rightarrow> pystr \<Rightarrow> py_exn + pyval" where
  "json_loads env s =
     (case foldl (decode_step env) (WantValue, []) (lex env s) of
        (Finished v, st) \<Rightarrow> Inr v
      | (Failed e, st) \<Rightarrow> Inl e
      | _ \<Rightarrow> Inl JSONDecodeError)"

subsection \<open>The extractor\<close>

text \<open>\<open>cfg.get(k)\<close>: only a dict has the method; a missing key gives \<open>None\<close>.\<close>

definition py_get :: "pyval \<Rightarrow> pystr \<Rightarrow> py_exn + pyval" where
  "py_get cfg k =
     (case cfg of
        PDict kvs \<Rightarrow> Inr (case map_of kvs k of Some v \<Rightarrow> v | None \<Rightarrow> PNone)
      | _ \<Rightarrow> Inl AttributeError)"

definition INNERTUBE_API_KEY :: pystr where
  "INNERTUBE_API_KEY = py ''INNERTUBE_API_KEY''"

text \<open>The second pattern, \<open>ytcfg\.set\(\s*({.+?})\s*\)\s*;\<close> with \<open>re.DOTALL\<close>, and its group.\<close>

definition ytcfg_search :: "pystr \<Rightarrow> pystr option" where
  "ytcfg_search html =
     re_search_group1
       [Lit (py ''ytcfg.set(''), Star isspace]
       [Lit [123], LazyPlus (\<lambda>c. True), Lit [125]]
       [Star isspace, Lit [41], Star isspace, Lit [59]]
       html"

text \<open>
  \<open>extract_innertube_api_key\<close>. \<open>Inl\<close> is an exception that leaves the function, \<open>Inr\<close>
  the value returned. The \<open>try\<close> block is the inner \<open>case\<close>: its exception is dropped
  when its class derives from \<open>Exception\<close>, and the function then returns \<open>None\<close>.
\<close>

definition extract_innertube_api_key :: "interp \<Rightarrow> pystr \<Rightarrow> py_exn + pyval" where
  "extract_innertube_api_key env html =
     (let key = extract_string INNERTUBE_API_KEY html in
      if truthy key then Inr key
      else
        (case ytcfg_search html of
           None \<Rightarrow> Inr PNone
         | Some g \<Rightarrow>
             (case (case json_loads env g of
                      Inl e \<Rightarrow> Inl e
                    | Inr cfg \<Rightarrow> py_get cfg INNERTUBE_API_KEY) of
                Inr v \<Rightarrow> Inr v
              | Inl e \<Rightarrow> if is_Exception e then Inr PNone else Inl e)))"

section \<open>Probing the sources\<close>

text \<open>
  \<open>requests.get(url, headers=headers, timeout=12)\<close> is the environment: given the URLs
  fetched so far and the URL asked for, it raises an exception or gives a response. The
  world records the URLs passed to it, in order, and what was printed, one event for each
  \<open>print\<close> of the function.
\<close>

record response =
  status_code :: int
  resp_text :: pystr

type_synonym http = "pystr list \<Rightarrow> pystr \<Rightarrow> py_exn + response"

datatype event =
    Trying pystr
  | Found pyval
  | ErrorRequesting pystr py_exn
  | CouldNotFind

record world =
  fetched :: "pystr list"
  printed :: "event list"

text \<open>
  \<open>print\<close> encodes its text for standard output and raises \<open>UnicodeEncodeError\<close> when
  the text cannot be encoded. Standard output is UTF-8 with strict error handling: a
  text is refused exactly when it holds a surrogate code point, U+D800..U+DFFF. The fixed
  words of the four messages hold none, and neither does the message of an exception; what
  varies is the URL and the key. \<open>print\<close> shows a key that is a string as it is, and any
  other value through \<open>repr\<close>, which writes a surrogate as an escape.
\<close>

definition encodable :: "pystr \<Rightarrow> bool" where
  "encodable s = list_all (\<lambda>c. \<not> (55296 \<le> c \<and> c \<le> 57343)) s"

fun printable :: "event \<Rightarrow> bool" where
  "printable (Trying url) = encodable url"
| "printable (Found key) = (case key of PStr s \<Rightarrow> encodable s | _ \<Rightarrow> True)"
| "printable (ErrorRequesting url e) = encodable url"
| "printable CouldNotFind = True"

definition py_print :: "event \<Rightarrow> world \<Rightarrow> py_exn + world" where
  "py_print ev w =
     (if printable ev then Inr (w\<lparr>printed := printed w @ [ev]\<rparr>) else Inl UnicodeEncodeError)"

definition urls_to_try :: "pystr list" where
  "urls_to_try =
     [py ''https://www.youtube.com/tv'',
      py ''https://www.youtube.com/'',
      py ''https://www.youtube.com/embed/'']"

text \<open>How one pass through the loop body ends.\<close>

datatype flow = Return pyval | Raise py_exn | Next

text \<open>
  The \<open>try\<close> block of the loop body for one URL: how it ends, or the exception that
  leaves it, and the world at that point. Both of its \<open>print\<close> calls, the request and
  the extraction can raise.
\<close>

definition try_body :: "http \<Rightarrow> interp \<Rightarrow> pystr \<Rightarrow> world \<Rightarrow> (py_exn + flow) \<times> world" where
  "try_body get env url w =
     (case py_print (Trying url) w of
        Inl e \<Rightarrow> (Inl e, w)
      | Inr w1 \<Rightarrow>
          (let r = get (fetched w1) url;
               w2 = w1\<lparr>fetched := fetched w1 @ [url]\<rparr>
           in case r of
                Inl e \<Rightarrow> (Inl e, w2)
              | Inr resp \<Rightarrow>
                  if status_code resp \<noteq> 200 then (Inr Next, w2)
                  else
                    (case extract_innertube_api_key env (resp_text resp) of
                       Inl e \<Rightarrow> (Inl e, w2)
                     | Inr key \<Rightarrow>
                         if truthy key then
                           (case py_print (Found key) w2 of
                              Inl e \<Rightarrow> (Inl e, w2)
                            | Inr w3 \<Rightarrow> (Inr (Return key), w3))
                         else (Inr Next, w2))))"

text \<open>
  The loop body: the \<open>try\<close> block, then the \<open>except Exception\<close> clause, which prints and
  goes on to the next URL. An exception of another class, or one raised by the \<open>print\<close>
  of the clause itself, leaves the function.
\<close>

definition try_url :: "http \<Rightarrow> interp \<Rightarrow> pystr \<Rightarrow> world \<Rightarrow> flow \<times> world" where
  "try_url get env url w =
     (case try_body get env url w of
        (Inr f, w') \<Rightarrow> (f, w')
      | (Inl e, w') \<Rightarrow>
          if is_Exception e then
            (case py_print (ErrorRequesting url e) w' of
               Inl e' \<Rightarrow> (Raise e', w')
             | Inr w'' \<Rightarrow> (Next, w''))
          else (Raise e, w'))"

fun for_urls :: "http \<Rightarrow> interp \<Rightarrow> pystr list \<Rightarrow> world \<Rightarrow> flow \<times> world" where
  "for_urls get env [] w = (Next, w)"
| "for_urls get env (url # urls) w =
     (case try_url get env url w of
        (Next, w') \<Rightarrow> for_urls get env urls w'
      | (f, w') \<Rightarrow> (f, w'))"

definition get_fresh_innertube_key :: "http \<Rightarrow> interp \<Rightarrow> world \<Rightarrow> (py_exn + pyval) \<times> world" where
  "get_fresh_innertube_key get env w =
     (case for_urls get env urls_to_try w of
        (Return key, w') \<Rightarrow> (Inr key, w')
      | (Raise e, w') \<Rightarrow> (Inl e, w')
      | (Next, w') \<Rightarrow>
          (case py_print CouldNotFind w' of
             Inl e \<Rightarrow> (Inl e, w')
           | Inr w'' \<Rightarrow> (Inr PNone, w'')))"

section \<open>Operator input\<close>

text \<open>\<open>str.strip()\<close> and \<open>str.split(",")\<close>.\<close>

definition strip :: "pystr \<Rightarrow> pystr" where
  "strip s = rev (dropWhile isspace (rev (dropWhile isspace s)))"

fun split_comma :: "pystr \<Rightarrow> pystr list" where
  "split_comma [] = [[]]"
| "split_comma (c # cs) =
     (if c = 44 then [] # split_comma cs
      else (case split_comma cs of
              [] \<Rightarrow> [[c]]
            | f # fs \<Rightarrow> (c # f) # fs))"

text \<open>
  \<open>ask_for_api_keys\<close>, given the line \<open>input\<close> returned: the list of keys and which of the
  three closing messages was printed.
\<close>

datatype notice = UsingEmptyList | NoValidKeys | Added nat

definition ask_for_api_keys :: "pystr \<Rightarrow> pystr list \<times> notice" where
  "ask_for_api_keys line =
     (let v = strip line in
      if v = [] then ([], UsingEmptyList)
      else
        (let keys = map strip (filter (\<lambda>k. strip k \<noteq> []) (split_comma v)) in
         if keys = [] then ([], NoValidKeys)
         else (keys, Added (length keys))))"

section \<open>The forms of the specification\<close>

text \<open>
  A direct literal at position \<open>i\<close> of the text with value \<open>v\<close>: the quoted key, a colon
  with optional whitespace on both sides, and the value between double quotes, non-empty
  and free of double quotes.
\<close>

definition direct_literal_at :: "pystr \<Rightarrow> pystr \<Rightarrow> nat \<Rightarrow> pystr \<Rightarrow> bool" where
  "direct_literal_at key text i v \<longleftrightarrow>
     i \<le> length text \<and> v \<noteq> [] \<and> 34 \<notin> set v \<and>
     (\<exists>ws1 ws2 rest.
        list_all isspace ws1 \<and> list_all isspace ws2 \<and>
        drop i text = [34] @ key @ [34] @ ws1 @ [58] @ ws2 @ [34] @ v @ [34] @ rest)"

text \<open>The first direct literal of the text is at \<open>i\<close> and has value \<open>v\<close>.\<close>

definition first_direct_literal :: "pystr \<Rightarrow> pystr \<Rightarrow> nat \<Rightarrow> pystr \<Rightarrow> bool" where
  "first_direct_literal key text i v \<longleftrightarrow>
     direct_literal_at key text i v \<and> (\<forall>j<i. \<forall>w. \<not> direct_literal_at key text j w)"

definition no_direct_literal :: "pystr \<Rightarrow> pystr \<Rightarrow> bool" where
  "no_direct_literal key text \<longleftrightarrow> (\<forall>i v. \<not> direct_literal_at key text i v)"

text \<open>
  An embedded-object construct at position \<open>i\<close> with span \<open>g\<close>: the call name and the
  opening parenthesis, the span from an opening brace to a closing brace with at least one
  character between them, the closing parenthesis and the semicolon, with optional
  whitespace around the span and before the semicolon.
\<close>

definition embedded_construct_at :: "pystr \<Rightarrow> nat \<Rightarrow> pystr \<Rightarrow> bool" where
  "embedded_construct_at text i g \<longleftrightarrow>
     i \<le> length text \<and>
     (\<exists>ws1 inner ws2 ws3 rest.
        list_all isspace ws1 \<and> list_all isspace ws2 \<and> list_all isspace ws3 \<and>
        inner \<noteq> [] \<and> g = [123] @ inner @ [125] \<and>
        drop i text = py ''ytcfg.set('' @ ws1 @ g @ ws2 @ [41] @ ws3 @ [59] @ rest)"

text \<open>
  The construct the search finds: the leftmost position where one starts and, there, the
  shortest span.
\<close>

definition first_embedded_construct :: "pystr \<Rightarrow> nat \<Rightarrow> pystr \<Rightarrow> bool" where
  "first_embedded_construct text i g \<longleftrightarrow>
     embedded_construct_at text i g \<and>
     (\<forall>j<i. \<forall>h. \<not> embedded_construct_at text j h) \<and>
     (\<forall>h. embedded_construct_at text i h \<longrightarrow> length g \<le> length h)"

definition no_embedded_construct :: "pystr \<Rightarrow> bool" where
  "no_embedded_construct text \<longleftrightarrow> (\<forall>i g. \<not> embedded_construct_at text i g)"

text \<open>
  A source fails: the request raises a fault of a class that \<open>except Exception\<close>
  catches, or the response has a status other than 200.
\<close>

definition source_fails :: "py_exn + response \<Rightarrow> bool" where
  "source_fails r = (case r of Inl e \<Rightarrow> is_Exception e | Inr resp \<Rightarrow> status_code resp \<noteq> 200)"

text \<open>
  A source yields no key: it fails, or the extraction over its body gives nothing that
  counts as a key (\<open>None\<close>, or another value that is false in a condition).
\<close>

definition yields_no_key :: "interp \<Rightarrow> py_exn + response \<Rightarrow> bool" where
  "yields_no_key env r =
     (case r of
        Inl e \<Rightarrow> is_Exception e
      | Inr resp \<Rightarrow>
          status_code resp \<noteq> 200 \<or>
          (case extract_innertube_api_key env (resp_text resp) of
             Inl e \<Rightarrow> is_Exception e
           | Inr key \<Rightarrow> \<not> truthy key))"

text \<open>What a failing source prints after the line that announces the request.\<close>

definition fault_line :: "pystr \<Rightarrow> py_exn + response \<Rightarrow> event list" where
  "fault_line url r = (case r of Inl e \<Rightarrow> [ErrorRequesting url e] | Inr resp \<Rightarrow> [])"

text \<open>Fields joined by commas, the inverse of splitting on commas.\<close>

fun join_comma :: "pystr list \<Rightarrow> pystr" where
  "join_comma [] = []"
| "join_comma [f] = f"
| "join_comma (f # g # fs) = f @ [44] @ join_comma (g # fs)"

section \<open>What the decoder can raise\<close>

text \<open>A failed decoder state carries an exception whose class derives from \<open>Exception\<close>.\<close>

definition mode_ok :: "mode \<Rightarrow> bool" where
  "mode_ok m = (case m of Failed e \<Rightarrow> is_Exception e | _ \<Rightarrow> True)"

section \<open>How the two patterns match\<close>

text \<open>
  The matcher backtracks, but in both patterns every repetition is followed by a literal
  whose first character the repetition cannot consume, so a greedy repetition keeps the
  longest piece and the lazy one stops at the first place where the rest matches. The
  lemmas below establish this and relate the two searches to the forms of the
  specification.
\<close>

lemma first_some_None_iff: "first_some f xs = None \<longleftrightarrow> (\<forall>x\<in>set xs. f x = None)"
  by (induction xs) (auto split: option.splits)

lemma first_some_upt_Some_iff:
  "first_some f [a ..< b] = Some r \<longleftrightarrow>
     (\<exists>n. a \<le> n \<and> n < b \<and> f n = Some r \<and> (\<forall>m. a \<le> m \<and> m < n \<longrightarrow> f m = None))"
proof (induction "b - a" arbitrary: a)
  case 0
  then show ?case by auto
next
  case (Suc d)
  then have ab: "a < b" by simp
  have IH: "first_some f [Suc a ..< b] = Some r \<longleftrightarrow>
     (\<exists>n. Suc a \<le> n \<and> n < b \<and> f n = Some r \<and> (\<forall>m. Suc a \<le> m \<and> m < n \<longrightarrow> f m = None))"
    using Suc by simp
  show ?case
  proof (cases "f a")
    case None
    have "first_some f [a ..< b] = first_some f [Suc a ..< b]"
      using ab None by (simp add: upt_conv_Cons)
    moreover have "(\<exists>n. Suc a \<le> n \<and> n < b \<and> f n = Some r \<and> (\<forall>m. Suc a \<le> m \<and> m < n \<longrightarrow> f m = None))
       \<longleftrightarrow> (\<exists>n. a \<le> n \<and> n < b \<and> f n = Some r \<and> (\<forall>m. a \<le> m \<and> m < n \<longrightarrow> f m = None))"
      using None by (metis Suc_leD Suc_leI le_neq_implies_less option.distinct(1))
    ultimately show ?thesis using IH by simp
  next
    case (Some x)
    have "first_some f [a ..< b] = Some x"
      using ab Some by (simp add: upt_conv_Cons)
    moreover have "(\<exists>n. a \<le> n \<and> n < b \<and> f n = Some r \<and> (\<forall>m. a \<le> m \<and> m < n \<longrightarrow> f m = None)) \<longleftrightarrow> x = r"
      using Some ab by (metis le_refl linorder_neqE_nat not_less option.distinct(1) option.inject)
    ultimately show ?thesis by auto
  qed
qed

lemma first_some_rev_upt:
  assumes "\<And>m. m < n \<Longrightarrow> f m = None"
  shows "first_some f (rev [a ..< Suc n]) = (if a \<le> n then f n else None)"
proof (cases "a \<le> n")
  case True
  then have "rev [a ..< Suc n] = n # rev [a ..< n]" by simp
  moreover have "first_some f (rev [a ..< n]) = None"
    using assms by (simp add: first_some_None_iff)
  ultimately show ?thesis using True by (simp split: option.splits)
next
  case False
  then show ?thesis by simp
qed


lemma rx_Lit:
  "rx_match (Lit l # its) s = Some r \<longleftrightarrow>
     (\<exists>t r'. s = l @ t \<and> rx_match its t = Some r' \<and> r = l # r')"
proof
  assume "rx_match (Lit l # its) s = Some r"
  then have tk: "take (length l) s = l"
    and c: "consume (length l) s (rx_match its) = Some r"
    by (auto split: if_splits)
  from tk have "s = l @ drop (length l) s"
    by (metis append_take_drop_id)
  with c tk show "\<exists>t r'. s = l @ t \<and> rx_match its t = Some r' \<and> r = l # r'"
    by (auto simp: consume_def)
next
  assume "\<exists>t r'. s = l @ t \<and> rx_match its t = Some r' \<and> r = l # r'"
  then show "rx_match (Lit l # its) s = Some r"
    by (auto simp: consume_def)
qed

lemma rx_Lit_hd_None: "c \<noteq> c0 \<Longrightarrow> rx_match (Lit (c0 # l) # its) (c # t) = None"
  by simp

lemma consume_below_takeWhile:
  assumes k: "\<And>c t. p c \<Longrightarrow> k (c # t) = None"
    and m: "m < length (takeWhile p s)"
  shows "consume m s k = None"
proof -
  have ms: "m < length s"
    using m length_takeWhile_le [of p s] by simp
  have "takeWhile p s ! m \<in> set (takeWhile p s)"
    using m by simp
  then have "p (takeWhile p s ! m)"
    by (rule set_takeWhileD [THEN conjunct2])
  then have "p (s ! m)"
    using m by (simp add: takeWhile_nth)
  moreover have "drop m s = s ! m # drop (Suc m) s"
    using ms by (simp add: Cons_nth_drop_Suc)
  ultimately show ?thesis
    using k by (simp add: consume_def)
qed

lemma greedy_split:
  assumes k: "\<And>c t. p c \<Longrightarrow> k (c # t) = None"
    and ws: "list_all p ws" and t: "k t = Some r'"
  shows "takeWhile p (ws @ t) = ws \<and> dropWhile p (ws @ t) = t"
proof -
  have "takeWhile p t = []"
  proof (cases t)
    case Nil
    then show ?thesis by simp
  next
    case (Cons c t')
    with k [of c t'] t have "\<not> p c" by auto
    with Cons show ?thesis by simp
  qed
  moreover from this have "dropWhile p t = t"
    by (metis takeWhile_dropWhile_id append_Nil)
  ultimately show ?thesis
    using ws by (simp add: list_all_iff takeWhile_append2 dropWhile_append2)
qed

lemma rx_Star_eq:
  assumes k: "\<And>c t. p c \<Longrightarrow> rx_match its (c # t) = None"
  shows "rx_match (Star p # its) s =
      map_option ((#) (takeWhile p s)) (rx_match its (dropWhile p s))"
proof -
  let ?N = "length (takeWhile p s)"
  have "rx_match (Star p # its) s = consume ?N s (rx_match its)"
    using first_some_rev_upt [of ?N "\<lambda>n. consume n s (rx_match its)" 0]
      consume_below_takeWhile [of p "rx_match its", OF k]
    by simp
  then show ?thesis
    by (simp add: consume_def takeWhile_eq_take [symmetric] dropWhile_eq_drop [symmetric])
qed

lemma rx_Plus_eq:
  assumes k: "\<And>c t. p c \<Longrightarrow> rx_match its (c # t) = None"
  shows "rx_match (Plus p # its) s =
      (if takeWhile p s \<noteq> [] then
         map_option ((#) (takeWhile p s)) (rx_match its (dropWhile p s)) else None)"
proof -
  let ?N = "length (takeWhile p s)"
  have "rx_match (Plus p # its) s = (if 1 \<le> ?N then consume ?N s (rx_match its) else None)"
    using first_some_rev_upt [of ?N "\<lambda>n. consume n s (rx_match its)" 1]
      consume_below_takeWhile [of p "rx_match its", OF k]
    by simp
  then show ?thesis
    by (simp add: consume_def takeWhile_eq_take [symmetric] dropWhile_eq_drop [symmetric]
        Suc_le_eq)
qed

lemma rx_Lit_eq:
  "rx_match (Lit l # its) s =
     (if take (length l) s = l
      then map_option ((#) l) (rx_match its (drop (length l) s)) else None)"
  by (simp add: consume_def)

lemma rx_Star:
  assumes k: "\<And>c t. p c \<Longrightarrow> rx_match its (c # t) = None"
  shows "rx_match (Star p # its) s = Some r \<longleftrightarrow>
     (\<exists>ws t r'. s = ws @ t \<and> list_all p ws \<and> rx_match its t = Some r' \<and> r = ws # r')"
proof
  assume "rx_match (Star p # its) s = Some r"
  with rx_Star_eq [of p its s, OF k]
  obtain r' where "rx_match its (dropWhile p s) = Some r'" "r = takeWhile p s # r'"
    by auto
  moreover have "list_all p (takeWhile p s)"
    by (auto simp: list_all_iff dest: set_takeWhileD)
  ultimately show "\<exists>ws t r'. s = ws @ t \<and> list_all p ws \<and> rx_match its t = Some r' \<and> r = ws # r'"
    by (metis takeWhile_dropWhile_id)
next
  assume "\<exists>ws t r'. s = ws @ t \<and> list_all p ws \<and> rx_match its t = Some r' \<and> r = ws # r'"
  then obtain ws t r' where s: "s = ws @ t" and ws: "list_all p ws"
    and t: "rx_match its t = Some r'" and r: "r = ws # r'"
    by blast
  from greedy_split [of p "rx_match its", OF k ws t] s
  have "takeWhile p s = ws" "dropWhile p s = t" by simp_all
  with rx_Star_eq [of p its s, OF k] t r show "rx_match (Star p # its) s = Some r" by simp
qed

lemma rx_Plus:
  assumes k: "\<And>c t. p c \<Longrightarrow> rx_match its (c # t) = None"
  shows "rx_match (Plus p # its) s = Some r \<longleftrightarrow>
     (\<exists>ws t r'. s = ws @ t \<and> ws \<noteq> [] \<and> list_all p ws \<and> rx_match its t = Some r' \<and> r = ws # r')"
proof
  assume "rx_match (Plus p # its) s = Some r"
  with rx_Plus_eq [of p its s, OF k]
  obtain r' where "rx_match its (dropWhile p s) = Some r'" "r = takeWhile p s # r'"
    "takeWhile p s \<noteq> []"
    by (auto split: if_splits)
  moreover have "list_all p (takeWhile p s)"
    by (auto simp: list_all_iff dest: set_takeWhileD)
  ultimately show "\<exists>ws t r'. s = ws @ t \<and> ws \<noteq> [] \<and> list_all p ws \<and> rx_match its t = Some r' \<and> r = ws # r'"
    by (metis takeWhile_dropWhile_id)
next
  assume "\<exists>ws t r'. s = ws @ t \<and> ws \<noteq> [] \<and> list_all p ws \<and> rx_match its t = Some r' \<and> r = ws # r'"
  then obtain ws t r' where s: "s = ws @ t" and ws: "list_all p ws" and ne: "ws \<noteq> []"
    and t: "rx_match its t = Some r'" and r: "r = ws # r'"
    by blast
  from greedy_split [of p "rx_match its", OF k ws t] s
  have "takeWhile p s = ws" "dropWhile p s = t" by simp_all
  with rx_Plus_eq [of p its s, OF k] t r ne show "rx_match (Plus p # its) s = Some r" by simp
qed

lemma consume_Some_iff:
  "consume n s k = Some r \<longleftrightarrow> (\<exists>r'. k (drop n s) = Some r' \<and> r = take n s # r')"
  by (auto simp: consume_def)

lemma consume_None_iff: "consume n s k = None \<longleftrightarrow> k (drop n s) = None"
  by (simp add: consume_def)

lemma rx_LazyPlus_any:
  "rx_match (LazyPlus (\<lambda>c. True) # its) s = Some r \<longleftrightarrow>
     (\<exists>n r'. 1 \<le> n \<and> n \<le> length s \<and> rx_match its (drop n s) = Some r' \<and> r = take n s # r' \<and>
        (\<forall>m. 1 \<le> m \<and> m < n \<longrightarrow> rx_match its (drop m s) = None))"
  (is "?L \<longleftrightarrow> ?R")
proof -
  let ?f = "\<lambda>n. consume n s (rx_match its)"
  have tw: "takeWhile (\<lambda>c. True) s = s" by simp
  have eq: "rx_match (LazyPlus (\<lambda>c. True) # its) s = first_some ?f [1 ..< Suc (length s)]"
    by (simp only: rx_match.simps rx_step.simps tw)
  have "?L \<longleftrightarrow> (\<exists>n. 1 \<le> n \<and> n < Suc (length s) \<and> ?f n = Some r \<and>
            (\<forall>m. 1 \<le> m \<and> m < n \<longrightarrow> ?f m = None))"
    by (simp only: eq first_some_upt_Some_iff)
  also have "\<dots> \<longleftrightarrow> ?R"
  proof
    assume "\<exists>n. 1 \<le> n \<and> n < Suc (length s) \<and> ?f n = Some r \<and>
            (\<forall>m. 1 \<le> m \<and> m < n \<longrightarrow> ?f m = None)"
    then obtain n where n: "1 \<le> n" "n < Suc (length s)" "?f n = Some r"
      and m: "\<forall>m. 1 \<le> m \<and> m < n \<longrightarrow> ?f m = None"
      by blast
    from n(3) obtain r' where "rx_match its (drop n s) = Some r'" "r = take n s # r'"
      by (auto simp: consume_Some_iff)
    moreover from m have "\<forall>m. 1 \<le> m \<and> m < n \<longrightarrow> rx_match its (drop m s) = None"
      by (simp add: consume_None_iff)
    moreover from n(2) have "n \<le> length s" by simp
    ultimately show ?R using n(1) by blast
  next
    assume ?R
    then obtain n r' where n: "1 \<le> n" "n \<le> length s"
      "rx_match its (drop n s) = Some r'" "r = take n s # r'"
      and m: "\<forall>m. 1 \<le> m \<and> m < n \<longrightarrow> rx_match its (drop m s) = None"
      by blast
    have "?f n = Some r" using n(3,4) by (simp add: consume_Some_iff)
    moreover from m have "\<forall>m. 1 \<le> m \<and> m < n \<longrightarrow> ?f m = None"
      by (simp add: consume_None_iff)
    moreover from n(2) have "n < Suc (length s)" by simp
    ultimately show "\<exists>n. 1 \<le> n \<and> n < Suc (length s) \<and> ?f n = Some r \<and>
            (\<forall>m. 1 \<le> m \<and> m < n \<longrightarrow> ?f m = None)"
      using n(1) by blast
  qed
  finally show ?thesis .
qed

lemma rx_Star_Lit:
  assumes "\<not> p c0"
  shows "rx_match (Star p # Lit (c0 # l) # its) s = Some r \<longleftrightarrow>
     (\<exists>ws t r'. s = ws @ t \<and> list_all p ws \<and>
        rx_match (Lit (c0 # l) # its) t = Some r' \<and> r = ws # r')"
proof (rule rx_Star)
  fix c t assume "p c"
  with assms have "c \<noteq> c0" by auto
  then show "rx_match (Lit (c0 # l) # its) (c # t) = None" by simp
qed

lemma rx_Plus_Lit:
  assumes "\<not> p c0"
  shows "rx_match (Plus p # Lit (c0 # l) # its) s = Some r \<longleftrightarrow>
     (\<exists>ws t r'. s = ws @ t \<and> ws \<noteq> [] \<and> list_all p ws \<and>
        rx_match (Lit (c0 # l) # its) t = Some r' \<and> r = ws # r')"
proof (rule rx_Plus)
  fix c t assume "p c"
  with assms have "c \<noteq> c0" by auto
  then show "rx_match (Lit (c0 # l) # its) (c # t) = None" by simp
qed

lemma not_space: "\<not> isspace 58" "\<not> isspace 34" "\<not> isspace 123" "\<not> isspace 41" "\<not> isspace 59"
  by (simp_all add: isspace_def)

lemma rx_Nil: "rx_match [] s = Some r \<longleftrightarrow> r = []"
  by auto

lemma rx_Plus_nq:
  "rx_match (Plus (\<lambda>c. c \<noteq> 34) # Lit (34 # l) # its) s = Some r \<longleftrightarrow>
     (\<exists>ws t r'. s = ws @ t \<and> ws \<noteq> [] \<and> list_all (\<lambda>c. c \<noteq> 34) ws \<and>
        rx_match (Lit (34 # l) # its) t = Some r' \<and> r = ws # r')"
  by (rule rx_Plus_Lit) simp

lemmas rx_lit_simps =
  rx_Lit rx_Nil
  rx_Star_Lit [of isspace 58, OF not_space(1)]
  rx_Star_Lit [of isspace 34, OF not_space(2)]
  rx_Star_Lit [of isspace 123, OF not_space(3)]
  rx_Star_Lit [of isspace 41, OF not_space(4)]
  rx_Star_Lit [of isspace 59, OF not_space(5)]
  rx_Plus_nq

lemma literal_match_D:
  assumes "rx_match ([Lit ([34] @ key @ [34]), Star isspace, Lit [58], Star isspace, Lit [34]]
             @ [Plus (\<lambda>c. c \<noteq> 34)] @ [Lit [34]]) s = Some segs"
  shows "\<exists>ws1 ws2 v rest.
      list_all isspace ws1 \<and> list_all isspace ws2 \<and> v \<noteq> [] \<and> list_all (\<lambda>c. c \<noteq> 34) v \<and>
      s = [34] @ key @ [34] @ ws1 @ [58] @ ws2 @ [34] @ v @ [34] @ rest \<and>
      segs = [[34] @ key @ [34], ws1, [58], ws2, [34], v, [34]]"
  using assms by (simp only: append.simps rx_lit_simps) force


lemma rx_Star_Lit_eq:
  assumes "\<not> p c0"
  shows "rx_match (Star p # Lit (c0 # l) # its) s =
      map_option ((#) (takeWhile p s)) (rx_match (Lit (c0 # l) # its) (dropWhile p s))"
proof (rule rx_Star_eq)
  fix c t assume "p c"
  with assms have "c \<noteq> c0" by auto
  then show "rx_match (Lit (c0 # l) # its) (c # t) = None" by simp
qed

lemma rx_Plus_Lit_eq:
  assumes "\<not> p c0"
  shows "rx_match (Plus p # Lit (c0 # l) # its) s =
      (if takeWhile p s \<noteq> [] then
         map_option ((#) (takeWhile p s)) (rx_match (Lit (c0 # l) # its) (dropWhile p s))
       else None)"
proof (rule rx_Plus_eq)
  fix c t assume "p c"
  with assms have "c \<noteq> c0" by auto
  then show "rx_match (Lit (c0 # l) # its) (c # t) = None" by simp
qed

lemma takeWhile_stop:
  "list_all p ws \<Longrightarrow> \<not> p c \<Longrightarrow> takeWhile p (ws @ c # t) = ws"
  by (simp add: list_all_iff)

lemma dropWhile_stop:
  "list_all p ws \<Longrightarrow> \<not> p c \<Longrightarrow> dropWhile p (ws @ c # t) = c # t"
  by (simp add: list_all_iff)

lemma literal_match_I:
  assumes "list_all isspace ws1" "list_all isspace ws2" "v \<noteq> []" "list_all (\<lambda>c. c \<noteq> 34) v"
  shows "rx_match ([Lit ([34] @ key @ [34]), Star isspace, Lit [58], Star isspace, Lit [34]]
             @ [Plus (\<lambda>c. c \<noteq> 34)] @ [Lit [34]])
           ([34] @ key @ [34] @ ws1 @ [58] @ ws2 @ [34] @ v @ [34] @ rest)
         = Some [[34] @ key @ [34], ws1, [58], ws2, [34], v, [34]]"
proof -
  have 1: "rx_match [Plus (\<lambda>c. c \<noteq> 34), Lit [34]] (v @ 34 # rest) = Some [v, [34]]"
    using assms(3,4)
    by (simp add: rx_Plus_Lit_eq [of "\<lambda>c. c \<noteq> 34" 34] takeWhile_stop dropWhile_stop
        rx_Lit_eq del: rx_match.simps(2))
  have 2: "rx_match [Star isspace, Lit [34], Plus (\<lambda>c. c \<noteq> 34), Lit [34]]
             (ws2 @ 34 # v @ 34 # rest) = Some [ws2, [34], v, [34]]"
    using assms(2) 1
    by (simp add: rx_Star_Lit_eq [of isspace 34] not_space takeWhile_stop dropWhile_stop
        rx_Lit_eq del: rx_match.simps(2))
  have 3: "rx_match [Star isspace, Lit [58], Star isspace, Lit [34], Plus (\<lambda>c. c \<noteq> 34), Lit [34]]
             (ws1 @ 58 # ws2 @ 34 # v @ 34 # rest) = Some [ws1, [58], ws2, [34], v, [34]]"
    using assms(1) 2
    by (simp add: rx_Star_Lit_eq [of isspace 58] not_space takeWhile_stop dropWhile_stop
        rx_Lit_eq del: rx_match.simps(2))
  show ?thesis
    using 3 by (simp add: rx_Lit_eq del: rx_match.simps(2))
qed

lemma direct_literal_at_iff:
  "direct_literal_at key text i v \<longleftrightarrow>
     i \<le> length text \<and>
     (\<exists>segs. rx_match ([Lit ([34] @ key @ [34]), Star isspace, Lit [58], Star isspace, Lit [34]]
                @ [Plus (\<lambda>c. c \<noteq> 34)] @ [Lit [34]]) (drop i text) = Some segs \<and>
             group1 [Lit ([34] @ key @ [34]), Star isspace, Lit [58], Star isspace, Lit [34]]
               [Plus (\<lambda>c. c \<noteq> 34)] segs = v)"
  (is "?D \<longleftrightarrow> ?M")
proof
  assume ?D
  then obtain ws1 ws2 rest where i: "i \<le> length text" and v: "v \<noteq> []" "34 \<notin> set v"
    and ws: "list_all isspace ws1" "list_all isspace ws2"
    and d: "drop i text = [34] @ key @ [34] @ ws1 @ [58] @ ws2 @ [34] @ v @ [34] @ rest"
    unfolding direct_literal_at_def by blast
  from v(2) have "list_all (\<lambda>c. c \<noteq> 34) v"
    by (auto simp: list_all_iff)
  from literal_match_I [OF ws v(1) this, of key rest] d i show ?M
    by (simp add: group1_def)
next
  assume ?M
  then obtain segs where i: "i \<le> length text"
    and m: "rx_match ([Lit ([34] @ key @ [34]), Star isspace, Lit [58], Star isspace, Lit [34]]
                @ [Plus (\<lambda>c. c \<noteq> 34)] @ [Lit [34]]) (drop i text) = Some segs"
    and g: "group1 [Lit ([34] @ key @ [34]), Star isspace, Lit [58], Star isspace, Lit [34]]
               [Plus (\<lambda>c. c \<noteq> 34)] segs = v"
    by blast
  from literal_match_D [OF m] obtain ws1 ws2 v' rest where
    ws: "list_all isspace ws1" "list_all isspace ws2" and v': "v' \<noteq> []" "list_all (\<lambda>c. c \<noteq> 34) v'"
    and d: "drop i text = [34] @ key @ [34] @ ws1 @ [58] @ ws2 @ [34] @ v' @ [34] @ rest"
    and segs: "segs = [[34] @ key @ [34], ws1, [58], ws2, [34], v', [34]]"
    by blast
  from g segs have "v' = v" by (simp add: group1_def)
  with v' have "v \<noteq> []" "34 \<notin> set v"
    by (auto simp: list_all_iff)
  with i ws d \<open>v' = v\<close> show ?D
    unfolding direct_literal_at_def by blast
qed

lemma re_search_Some_iff:
  "re_search_group1 pre grp post text = Some g \<longleftrightarrow>
     (\<exists>i segs. i \<le> length text \<and>
        rx_match (pre @ grp @ post) (drop i text) = Some segs \<and>
        (\<forall>j<i. rx_match (pre @ grp @ post) (drop j text) = None) \<and>
        g = group1 pre grp segs)"
  unfolding re_search_group1_def map_option_eq_Some first_some_upt_Some_iff
  by (auto simp: less_Suc_eq_le)

lemma re_search_SomeI:
  assumes "i \<le> length text"
    and "rx_match (pre @ grp @ post) (drop i text) = Some segs"
    and "\<And>j. j < i \<Longrightarrow> rx_match (pre @ grp @ post) (drop j text) = None"
  shows "re_search_group1 pre grp post text = Some (group1 pre grp segs)"
  unfolding re_search_Some_iff using assms by blast

lemma re_search_None_iff:
  "re_search_group1 pre grp post text = None \<longleftrightarrow>
     (\<forall>i\<le>length text. rx_match (pre @ grp @ post) (drop i text) = None)"
  unfolding re_search_group1_def
  by (auto simp: first_some_None_iff less_Suc_eq_le simp del: upt_Suc)

lemma extract_string_first:
  assumes "first_direct_literal key text i v"
  shows "extract_string key text = PStr v"
proof -
  let ?P = "[Lit ([34] @ key @ [34]), Star isspace, Lit [58], Star isspace, Lit [34]]
             @ [Plus (\<lambda>c. c \<noteq> 34)] @ [Lit [34]]"
  from assms have at: "direct_literal_at key text i v"
    and before: "\<And>j w. j < i \<Longrightarrow> \<not> direct_literal_at key text j w"
    unfolding first_direct_literal_def by blast+
  from at obtain segs where i: "i \<le> length text"
    and m: "rx_match ?P (drop i text) = Some segs"
    and g: "group1 [Lit ([34] @ key @ [34]), Star isspace, Lit [58], Star isspace, Lit [34]] [Plus (\<lambda>c. c \<noteq> 34)] segs = v"
    unfolding direct_literal_at_iff by blast
  have none: "rx_match ?P (drop j text) = None" if "j < i" for j
  proof (cases "rx_match ?P (drop j text)")
    case None
    then show ?thesis .
  next
    case (Some segs')
    with that i have "direct_literal_at key text j (group1 [Lit ([34] @ key @ [34]), Star isspace, Lit [58], Star isspace, Lit [34]] [Plus (\<lambda>c. c \<noteq> 34)] segs')"
      unfolding direct_literal_at_iff by simp
    with before [OF that] show ?thesis by blast
  qed
  have "re_search_group1
          [Lit ([34] @ key @ [34]), Star isspace, Lit [58], Star isspace, Lit [34]]
          [Plus (\<lambda>c. c \<noteq> 34)] [Lit [34]] text = Some v"
    using re_search_SomeI [OF i m none] g by blast
  then show ?thesis
    by (simp add: extract_string_def)
qed

lemma extract_string_none:
  assumes "no_direct_literal key text"
  shows "extract_string key text = PNone"
proof -
  let ?P = "[Lit ([34] @ key @ [34]), Star isspace, Lit [58], Star isspace, Lit [34]]
             @ [Plus (\<lambda>c. c \<noteq> 34)] @ [Lit [34]]"
  have "rx_match ?P (drop i text) = None" if "i \<le> length text" for i
  proof (cases "rx_match ?P (drop i text)")
    case None
    then show ?thesis .
  next
    case (Some segs)
    with that have "direct_literal_at key text i (group1 [Lit ([34] @ key @ [34]), Star isspace, Lit [58], Star isspace, Lit [34]] [Plus (\<lambda>c. c \<noteq> 34)] segs)"
      unfolding direct_literal_at_iff by simp
    with assms show ?thesis
      unfolding no_direct_literal_def by blast
  qed
  then have "re_search_group1
          [Lit ([34] @ key @ [34]), Star isspace, Lit [58], Star isspace, Lit [34]]
          [Plus (\<lambda>c. c \<noteq> 34)] [Lit [34]] text = None"
    unfolding re_search_None_iff by blast
  then show ?thesis
    by (simp add: extract_string_def)
qed

lemma extract_string_cases:
  "(extract_string key text = PNone \<and> no_direct_literal key text) \<or>
   (\<exists>i v. extract_string key text = PStr v \<and> first_direct_literal key text i v)"
proof (cases "no_direct_literal key text")
  case True
  then show ?thesis by (simp add: extract_string_none)
next
  case False
  then have ex: "\<exists>i. \<exists>v. direct_literal_at key text i v"
    unfolding no_direct_literal_def by blast
  define i where "i = (LEAST i. \<exists>v. direct_literal_at key text i v)"
  from ex have "\<exists>v. direct_literal_at key text i v"
    unfolding i_def by (rule LeastI_ex)
  then obtain v where v: "direct_literal_at key text i v" ..
  have "\<not> direct_literal_at key text j w" if "j < i" for j w
    using that not_less_Least [of j "\<lambda>i. \<exists>v. direct_literal_at key text i v"]
    unfolding i_def by blast
  with v have f: "first_direct_literal key text i v"
    unfolding first_direct_literal_def by blast
  from extract_string_first [OF f] f show ?thesis by blast
qed

lemma direct_literal_value:
  "direct_literal_at key text i v \<Longrightarrow> v \<noteq> [] \<and> 34 \<notin> set v"
  unfolding direct_literal_at_def by blast

lemma tail_match_D:
  assumes "rx_match [Lit [125], Star isspace, Lit [41], Star isspace, Lit [59]] t = Some r"
  shows "\<exists>ws2 ws3 rest. list_all isspace ws2 \<and> list_all isspace ws3 \<and>
           t = [125] @ ws2 @ [41] @ ws3 @ [59] @ rest \<and> r = [[125], ws2, [41], ws3, [59]]"
  using assms by (simp only: append.simps rx_lit_simps) force

lemma tail_match_I:
  assumes "list_all isspace ws2" "list_all isspace ws3"
  shows "rx_match [Lit [125], Star isspace, Lit [41], Star isspace, Lit [59]]
           ([125] @ ws2 @ [41] @ ws3 @ [59] @ rest) = Some [[125], ws2, [41], ws3, [59]]"
proof -
  have 1: "rx_match [Star isspace, Lit [59]] (ws3 @ 59 # rest) = Some [ws3, [59]]"
    using assms(2)
    by (simp add: rx_Star_Lit_eq [of isspace 59] not_space takeWhile_stop dropWhile_stop
        rx_Lit_eq del: rx_match.simps(2))
  have 2: "rx_match [Star isspace, Lit [41], Star isspace, Lit [59]]
             (ws2 @ 41 # ws3 @ 59 # rest) = Some [ws2, [41], ws3, [59]]"
    using assms(1) 1
    by (simp add: rx_Star_Lit_eq [of isspace 41] not_space takeWhile_stop dropWhile_stop
        rx_Lit_eq del: rx_match.simps(2))
  show ?thesis
    using 2 by (simp add: rx_Lit_eq del: rx_match.simps(2))
qed

lemma construct_match_iff:
  "rx_match ([Lit (py ''ytcfg.set(''), Star isspace] @ [Lit [123], LazyPlus (\<lambda>c. True), Lit [125]]
       @ [Star isspace, Lit [41], Star isspace, Lit [59]]) s = Some segs \<longleftrightarrow>
   (\<exists>ws1 u n r. list_all isspace ws1 \<and> s = py ''ytcfg.set('' @ ws1 @ 123 # u \<and>
      1 \<le> n \<and> n \<le> length u \<and>
      rx_match [Lit [125], Star isspace, Lit [41], Star isspace, Lit [59]] (drop n u) = Some r \<and>
      (\<forall>m. 1 \<le> m \<and> m < n \<longrightarrow>
         rx_match [Lit [125], Star isspace, Lit [41], Star isspace, Lit [59]] (drop m u) = None) \<and>
      segs = py ''ytcfg.set('' # ws1 # [123] # take n u # r)"
  (is "?L \<longleftrightarrow> ?R")
proof -
  let ?T = "[Lit [125], Star isspace, Lit [41], Star isspace, Lit [59]]"
  have "?L \<longleftrightarrow>
    (\<exists>t r'. s = py ''ytcfg.set('' @ t \<and>
        (\<exists>ws ta r'a. t = ws @ ta \<and> list_all isspace ws \<and>
            (\<exists>tb r'b. ta = [123] @ tb \<and>
                (\<exists>n r'c. 1 \<le> n \<and> n \<le> length tb \<and> rx_match ?T (drop n tb) = Some r'c \<and>
                    r'b = take n tb # r'c \<and>
                    (\<forall>m. 1 \<le> m \<and> m < n \<longrightarrow> rx_match ?T (drop m tb) = None)) \<and>
                r'a = [123] # r'b) \<and>
            r' = ws # r'a) \<and>
        segs = py ''ytcfg.set('' # r')"
    by (simp only: append.simps rx_Lit [of "py ''ytcfg.set(''"] rx_Lit [of "[123]"]
        rx_Star_Lit [of isspace 123, OF not_space(3)] rx_LazyPlus_any)
  also have "\<dots> \<longleftrightarrow> ?R"
    by (simp only: append.simps) blast
  finally show ?thesis .
qed

lemma embedded_construct_at_iff:
  "embedded_construct_at text i g \<longleftrightarrow>
     i \<le> length text \<and>
     (\<exists>ws1 u n r. list_all isspace ws1 \<and> drop i text = py ''ytcfg.set('' @ ws1 @ 123 # u \<and>
        1 \<le> n \<and> n \<le> length u \<and>
        rx_match [Lit [125], Star isspace, Lit [41], Star isspace, Lit [59]] (drop n u) = Some r \<and>
        g = 123 # take n u @ [125])"
  (is "?E \<longleftrightarrow> ?M")
proof
  assume ?E
  then obtain ws1 inner ws2 ws3 rest where i: "i \<le> length text"
    and ws: "list_all isspace ws1" "list_all isspace ws2" "list_all isspace ws3"
    and inner: "inner \<noteq> []" and g: "g = [123] @ inner @ [125]"
    and d: "drop i text = py ''ytcfg.set('' @ ws1 @ g @ ws2 @ [41] @ ws3 @ [59] @ rest"
    unfolding embedded_construct_at_def by blast
  let ?u = "inner @ [125] @ ws2 @ [41] @ ws3 @ [59] @ rest"
  have "drop i text = py ''ytcfg.set('' @ ws1 @ 123 # ?u"
    using d g by simp
  moreover have "1 \<le> length inner" "length inner \<le> length ?u"
    using inner by (simp_all add: Suc_le_eq)
  moreover have "rx_match [Lit [125], Star isspace, Lit [41], Star isspace, Lit [59]]
      (drop (length inner) ?u) = Some [[125], ws2, [41], ws3, [59]]"
    using tail_match_I [OF ws(2,3), of rest] by simp
  moreover have "g = 123 # take (length inner) ?u @ [125]"
    using g by simp
  ultimately show ?M
    using i ws(1) by blast
next
  assume ?M
  then obtain ws1 u n r where i: "i \<le> length text" and ws1: "list_all isspace ws1"
    and d: "drop i text = py ''ytcfg.set('' @ ws1 @ 123 # u"
    and n: "1 \<le> n" "n \<le> length u"
    and m: "rx_match [Lit [125], Star isspace, Lit [41], Star isspace, Lit [59]] (drop n u) = Some r"
    and g: "g = 123 # take n u @ [125]"
    by blast
  from tail_match_D [OF m] obtain ws2 ws3 rest where
    ws: "list_all isspace ws2" "list_all isspace ws3"
    and t: "drop n u = [125] @ ws2 @ [41] @ ws3 @ [59] @ rest"
    by blast
  have "u = take n u @ drop n u" by simp
  with t have u: "u = take n u @ [125] @ ws2 @ [41] @ ws3 @ [59] @ rest" by simp
  have ne: "take n u \<noteq> []" using n by auto
  have "drop i text = py ''ytcfg.set('' @ ws1 @ g @ ws2 @ [41] @ ws3 @ [59] @ rest"
    using d g u by (metis append.assoc append_Cons append_Nil)
  moreover have "g = [123] @ take n u @ [125]" using g by simp
  ultimately show ?E
    unfolding embedded_construct_at_def using i ws1 ws ne by blast
qed

lemma space_prefix_unique:
  assumes "list_all p ws" "list_all p ws'" "\<not> p c" "ws @ c # x = ws' @ c # y"
  shows "ws = ws' \<and> x = y"
proof -
  have "takeWhile p (ws @ c # x) = ws" "takeWhile p (ws' @ c # y) = ws'"
    using assms(1-3) by (simp_all add: takeWhile_stop)
  with assms(4) have "ws = ws'" by simp
  with assms(4) show ?thesis by simp
qed

lemma construct_match_ex:
  assumes "embedded_construct_at text i h"
  shows "\<exists>segs. rx_match ([Lit (py ''ytcfg.set(''), Star isspace]
       @ [Lit [123], LazyPlus (\<lambda>c. True), Lit [125]]
       @ [Star isspace, Lit [41], Star isspace, Lit [59]]) (drop i text) = Some segs"
proof -
  let ?T = "[Lit [125], Star isspace, Lit [41], Star isspace, Lit [59]]"
  from assms obtain ws1 u n r where ws1: "list_all isspace ws1"
    and d: "drop i text = py ''ytcfg.set('' @ ws1 @ 123 # u"
    and n: "1 \<le> n" "n \<le> length u" "rx_match ?T (drop n u) = Some r"
    unfolding embedded_construct_at_iff by blast
  let ?Q = "\<lambda>n. 1 \<le> n \<and> n \<le> length u \<and> (\<exists>r. rx_match ?T (drop n u) = Some r)"
  define n0 where "n0 = (LEAST n. ?Q n)"
  have "?Q n" using n by blast
  then have "?Q n0" unfolding n0_def by (rule LeastI)
  then obtain r0 where n0: "1 \<le> n0" "n0 \<le> length u" "rx_match ?T (drop n0 u) = Some r0"
    by blast
  have least: "rx_match ?T (drop m u) = None" if "1 \<le> m" "m < n0" for m
  proof (cases "rx_match ?T (drop m u)")
    case None
    then show ?thesis .
  next
    case (Some r')
    with that n0(2) have "?Q m" by auto
    then have "n0 \<le> m" unfolding n0_def by (rule Least_le)
    with that show ?thesis by simp
  qed
  have "rx_match ([Lit (py ''ytcfg.set(''), Star isspace]
       @ [Lit [123], LazyPlus (\<lambda>c. True), Lit [125]]
       @ [Star isspace, Lit [41], Star isspace, Lit [59]]) (drop i text)
      = Some (py ''ytcfg.set('' # ws1 # [123] # take n0 u # r0)"
    unfolding construct_match_iff using ws1 d n0 least by blast
  then show ?thesis by blast
qed

lemma construct_match_D:
  assumes i: "i \<le> length text"
    and m: "rx_match ([Lit (py ''ytcfg.set(''), Star isspace]
       @ [Lit [123], LazyPlus (\<lambda>c. True), Lit [125]]
       @ [Star isspace, Lit [41], Star isspace, Lit [59]]) (drop i text) = Some segs"
  shows "embedded_construct_at text i
           (group1 [Lit (py ''ytcfg.set(''), Star isspace]
              [Lit [123], LazyPlus (\<lambda>c. True), Lit [125]] segs)"
    and "\<And>h. embedded_construct_at text i h \<Longrightarrow>
           length (group1 [Lit (py ''ytcfg.set(''), Star isspace]
              [Lit [123], LazyPlus (\<lambda>c. True), Lit [125]] segs) \<le> length h"
proof -
  let ?T = "[Lit [125], Star isspace, Lit [41], Star isspace, Lit [59]]"
  let ?g = "group1 [Lit (py ''ytcfg.set(''), Star isspace]
              [Lit [123], LazyPlus (\<lambda>c. True), Lit [125]] segs"
  from m obtain ws1 u n r where ws1: "list_all isspace ws1"
    and d: "drop i text = py ''ytcfg.set('' @ ws1 @ 123 # u"
    and n: "1 \<le> n" "n \<le> length u" "rx_match ?T (drop n u) = Some r"
    and least: "\<And>m. 1 \<le> m \<Longrightarrow> m < n \<Longrightarrow> rx_match ?T (drop m u) = None"
    and segs: "segs = py ''ytcfg.set('' # ws1 # [123] # take n u # r"
    unfolding construct_match_iff by blast
  from tail_match_D [OF n(3)] obtain ws2 ws3 where "r = [[125], ws2, [41], ws3, [59]]"
    by blast
  with segs have g: "?g = 123 # take n u @ [125]"
    by (simp add: group1_def)
  show "embedded_construct_at text i ?g"
    unfolding embedded_construct_at_iff using i ws1 d n g by blast
  fix h assume "embedded_construct_at text i h"
  then obtain ws1' u' n' r' where ws1': "list_all isspace ws1'"
    and d': "drop i text = py ''ytcfg.set('' @ ws1' @ 123 # u'"
    and n': "1 \<le> n'" "n' \<le> length u'" "rx_match ?T (drop n' u') = Some r'"
    and h: "h = 123 # take n' u' @ [125]"
    unfolding embedded_construct_at_iff by blast
  from d d' have "ws1 @ 123 # u = ws1' @ 123 # u'" by simp
  from space_prefix_unique [OF ws1 ws1' not_space(3) this] have "u' = u" by simp
  have "n \<le> n'"
  proof (rule ccontr)
    assume "\<not> n \<le> n'"
    then have "n' < n" by simp
    from least [OF n'(1) this] n'(3) \<open>u' = u\<close> show False by simp
  qed
  then show "length ?g \<le> length h"
    using g h n(2) n'(2) \<open>u' = u\<close> by simp
qed

lemma construct_unique:
  assumes "embedded_construct_at text i g" "embedded_construct_at text i h"
    and "length g = length h"
  shows "g = h"
proof -
  from assms(1) obtain ws1 u n where ws1: "list_all isspace ws1"
    and d: "drop i text = py ''ytcfg.set('' @ ws1 @ 123 # u"
    and n: "n \<le> length u" and g: "g = 123 # take n u @ [125]"
    unfolding embedded_construct_at_iff by blast
  from assms(2) obtain ws1' u' n' where ws1': "list_all isspace ws1'"
    and d': "drop i text = py ''ytcfg.set('' @ ws1' @ 123 # u'"
    and n': "n' \<le> length u'" and h: "h = 123 # take n' u' @ [125]"
    unfolding embedded_construct_at_iff by blast
  from d d' have "ws1 @ 123 # u = ws1' @ 123 # u'" by simp
  from space_prefix_unique [OF ws1 ws1' not_space(3) this] have "u' = u" by simp
  with assms(3) g h n n' have "n = n'" by simp
  with g h \<open>u' = u\<close> show ?thesis by simp
qed

lemma ytcfg_search_first:
  assumes "first_embedded_construct text i g"
  shows "ytcfg_search text = Some g"
proof -
  let ?C = "[Lit (py ''ytcfg.set(''), Star isspace]
       @ [Lit [123], LazyPlus (\<lambda>c. True), Lit [125]]
       @ [Star isspace, Lit [41], Star isspace, Lit [59]]"
  let ?grp = "group1 [Lit (py ''ytcfg.set(''), Star isspace]
              [Lit [123], LazyPlus (\<lambda>c. True), Lit [125]]"
  from assms have at: "embedded_construct_at text i g"
    and before: "\<And>j h. j < i \<Longrightarrow> \<not> embedded_construct_at text j h"
    and shortest: "\<And>h. embedded_construct_at text i h \<Longrightarrow> length g \<le> length h"
    unfolding first_embedded_construct_def by blast+
  from at have i: "i \<le> length text"
    unfolding embedded_construct_at_def by blast
  from construct_match_ex [OF at] obtain segs where m: "rx_match ?C (drop i text) = Some segs"
    by blast
  have none: "rx_match ?C (drop j text) = None" if "j < i" for j
  proof (cases "rx_match ?C (drop j text)")
    case None
    then show ?thesis .
  next
    case (Some segs')
    from that i have "j \<le> length text" by simp
    from construct_match_D(1) [OF this Some] before [OF that] show ?thesis by blast
  qed
  from construct_match_D [OF i m] at have "embedded_construct_at text i (?grp segs)"
    and "length (?grp segs) \<le> length g"
    by blast+
  with shortest [of "?grp segs"] have "length (?grp segs) = length g" by simp
  from construct_unique [OF \<open>embedded_construct_at text i (?grp segs)\<close> at this]
  have "?grp segs = g" .
  with re_search_SomeI [OF i m none] show ?thesis
    by (simp add: ytcfg_search_def)
qed

lemma ytcfg_search_none:
  assumes "no_embedded_construct text"
  shows "ytcfg_search text = None"
proof -
  let ?C = "[Lit (py ''ytcfg.set(''), Star isspace]
       @ [Lit [123], LazyPlus (\<lambda>c. True), Lit [125]]
       @ [Star isspace, Lit [41], Star isspace, Lit [59]]"
  have "rx_match ?C (drop i text) = None" if "i \<le> length text" for i
  proof (cases "rx_match ?C (drop i text)")
    case None
    then show ?thesis .
  next
    case (Some segs)
    from construct_match_D(1) [OF that Some] assms show ?thesis
      unfolding no_embedded_construct_def by blast
  qed
  then have "re_search_group1 [Lit (py ''ytcfg.set(''), Star isspace]
       [Lit [123], LazyPlus (\<lambda>c. True), Lit [125]]
       [Star isspace, Lit [41], Star isspace, Lit [59]] text = None"
    unfolding re_search_None_iff by blast
  then show ?thesis
    by (simp add: ytcfg_search_def)
qed

lemma ytcfg_search_cases:
  "(ytcfg_search text = None \<and> no_embedded_construct text) \<or>
   (\<exists>i g. ytcfg_search text = Some g \<and> first_embedded_construct text i g)"
proof (cases "no_embedded_construct text")
  case True
  then show ?thesis by (simp add: ytcfg_search_none)
next
  case False
  let ?C = "[Lit (py ''ytcfg.set(''), Star isspace]
       @ [Lit [123], LazyPlus (\<lambda>c. True), Lit [125]]
       @ [Star isspace, Lit [41], Star isspace, Lit [59]]"
  let ?grp = "group1 [Lit (py ''ytcfg.set(''), Star isspace]
              [Lit [123], LazyPlus (\<lambda>c. True), Lit [125]]"
  from False have ex: "\<exists>i. \<exists>g. embedded_construct_at text i g"
    unfolding no_embedded_construct_def by blast
  define i where "i = (LEAST i. \<exists>g. embedded_construct_at text i g)"
  from ex have "\<exists>g. embedded_construct_at text i g"
    unfolding i_def by (rule LeastI_ex)
  then obtain h where h: "embedded_construct_at text i h" ..
  then have il: "i \<le> length text"
    unfolding embedded_construct_at_def by blast
  have before: "\<not> embedded_construct_at text j w" if "j < i" for j w
    using that not_less_Least [of j "\<lambda>i. \<exists>g. embedded_construct_at text i g"]
    unfolding i_def by blast
  from construct_match_ex [OF h] obtain segs where m: "rx_match ?C (drop i text) = Some segs"
    by blast
  from construct_match_D [OF il m] before
  have "first_embedded_construct text i (?grp segs)"
    unfolding first_embedded_construct_def by blast
  from ytcfg_search_first [OF this] this show ?thesis by blast
qed

text \<open>The decoder raises nothing that \<open>except Exception\<close> lets through.\<close>

lemma number_value_exn:
  "number_value env neg ipart fpart esign epart = Inl e \<Longrightarrow> e = ValueError"
  by (simp add: number_value_def split: if_splits)

lemma match_number_exn:
  "match_number env c cs = Some (Inl e, n) \<Longrightarrow> e = ValueError"
  by (auto simp: match_number_def split: prod.splits if_splits dest: number_value_exn)

lemma next_token_bad: "next_token env c cs = (TBad e, n) \<Longrightarrow> is_Exception e"
  unfolding next_token_def
  by (auto split: if_splits option.splits sum.splits prod.splits dest: match_number_exn)

lemma lex_bad_Exception: "TBad e \<in> set (lex env s) \<Longrightarrow> is_Exception e"
proof (induction env s rule: lex.induct)
  case (1 env)
  then show ?case by simp
next
  case (2 env c cs)
  show ?case
  proof (cases "json_ws c")
    case True
    with "2.IH"(1) "2.prems" show ?thesis by simp
  next
    case False
    obtain t n where tn: "next_token env c cs = (t, n)" by (cases "next_token env c cs")
    show ?thesis
    proof (cases "\<exists>e'. t = TBad e'")
      case True
      then obtain e' where "t = TBad e'" ..
      with "2.prems" False tn next_token_bad [of env c cs e' n] show ?thesis by simp
    next
      case nb: False
      then have "lex env (c # cs) = t # lex env (drop n cs)"
        using False tn by (cases t) simp_all
      moreover have "TBad e \<in> set (lex env (drop n cs)) \<Longrightarrow> is_Exception e"
        using nb False tn by (cases t) (auto intro: "2.IH")
      ultimately show ?thesis using "2.prems" nb by auto
    qed
  qed
qed

lemma complete_ok: "mode_ok (fst (complete v st))"
  by (cases "(v, st)" rule: complete.cases) (simp_all add: mode_ok_def)

lemma begin_value_ok:
  "(\<And>e. t = TBad e \<Longrightarrow> is_Exception e) \<Longrightarrow> mode_ok (fst (begin_value env t st))"
  by (cases t) (simp_all add: begin_value_def complete_ok, simp_all add: mode_ok_def)

lemma begin_key_ok: "mode_ok (fst (begin_key t st))"
  by (auto simp: begin_key_def mode_ok_def split: token.splits list.splits frame.splits option.splits)

lemma decode_step_ok:
  assumes "mode_ok (fst st)" "\<And>e. t = TBad e \<Longrightarrow> is_Exception e"
  shows "mode_ok (fst (decode_step env st t))"
proof (cases st)
  case (Pair m fs)
  show ?thesis
  proof (cases m)
    case WantValue
    with Pair assms(2) show ?thesis by (simp add: begin_value_ok)
  next
    case WantValueOrClose
    with Pair assms(2) show ?thesis
      by (auto simp: begin_value_ok complete_ok split: token.splits list.splits frame.splits)
  next
    case WantKey
    with Pair show ?thesis by (simp add: begin_key_ok)
  next
    case WantKeyOrClose
    with Pair show ?thesis
      by (auto simp: begin_key_ok complete_ok split: token.splits list.splits frame.splits option.splits)
  next
    case WantColon
    with Pair show ?thesis by (auto simp: mode_ok_def split: token.splits)
  next
    case AfterValue
    with Pair show ?thesis
      by (auto simp: complete_ok complete_ok [unfolded mode_ok_def] mode_ok_def
          split: token.splits list.splits frame.splits option.splits)
  next
    case (Finished v)
    with Pair show ?thesis by (simp add: mode_ok_def)
  next
    case (Failed e)
    with Pair assms(1) show ?thesis by (simp add: mode_ok_def)
  qed
qed

lemma decode_all_ok:
  "mode_ok (fst st) \<Longrightarrow> (\<And>e. TBad e \<in> set ts \<Longrightarrow> is_Exception e) \<Longrightarrow>
     mode_ok (fst (foldl (decode_step env) st ts))"
proof (induction ts arbitrary: st)
  case Nil
  then show ?case by simp
next
  case (Cons t ts)
  have "mode_ok (fst (decode_step env st t))"
    using Cons.prems by (intro decode_step_ok) auto
  then show ?case
    using Cons.prems(2) by (simp add: Cons.IH)
qed

lemma json_loads_Exception: "json_loads env s = Inl e \<Longrightarrow> is_Exception e"
proof -
  assume a: "json_loads env s = Inl e"
  have "mode_ok (fst (foldl (decode_step env) (WantValue, []) (lex env s)))"
    by (rule decode_all_ok) (simp_all add: mode_ok_def lex_bad_Exception)
  with a show ?thesis
    by (auto simp: json_loads_def mode_ok_def split: prod.splits mode.splits)
qed

lemma try_block_cases:
  "(case (case json_loads env g of Inl e \<Rightarrow> Inl e | Inr cfg \<Rightarrow> py_get cfg k) of
      Inr v \<Rightarrow> Inr v
    | Inl e \<Rightarrow> if is_Exception e then Inr PNone else Inl e) =
   (case json_loads env g of
      Inr (PDict kvs) \<Rightarrow> Inr (case map_of kvs k of Some v \<Rightarrow> v | None \<Rightarrow> PNone)
    | _ \<Rightarrow> Inr PNone)"
  by (auto simp: py_get_def split: sum.splits pyval.splits dest: json_loads_Exception)

lemma extract_unfold:
  "extract_innertube_api_key env html =
     (if truthy (extract_string INNERTUBE_API_KEY html)
      then Inr (extract_string INNERTUBE_API_KEY html)
      else (case ytcfg_search html of
              None \<Rightarrow> Inr PNone
            | Some g \<Rightarrow>
                (case json_loads env g of
                   Inr (PDict kvs) \<Rightarrow>
                     Inr (case map_of kvs INNERTUBE_API_KEY of Some v \<Rightarrow> v | None \<Rightarrow> PNone)
                 | _ \<Rightarrow> Inr PNone)))"
  unfolding extract_innertube_api_key_def Let_def try_block_cases ..

lemma extract_never_raises: "\<exists>v. extract_innertube_api_key env html = Inr v"
  unfolding extract_unfold
  by (simp split: option.splits sum.splits pyval.splits)

section \<open>Results of the extractor\<close>

text \<open>
  The two searches decide the forms of the specification, so a concrete page is
  classified by running them.
\<close>

lemma first_direct_literal_ex:
  "extract_string key page = PStr v \<Longrightarrow> \<exists>i. first_direct_literal key page i v"
  using extract_string_cases [of key page] by auto

lemma no_direct_literal_eval:
  "extract_string key page = PNone \<Longrightarrow> no_direct_literal key page"
  using extract_string_cases [of key page] by auto

lemma first_embedded_construct_ex:
  "ytcfg_search page = Some g \<Longrightarrow> \<exists>i. first_embedded_construct page i g"
  using ytcfg_search_cases [of page] by auto

lemma no_embedded_construct_eval:
  "ytcfg_search page = None \<Longrightarrow> no_embedded_construct page"
  using ytcfg_search_cases [of page] by auto

lemma embedded_construct_atI:
  assumes "i \<le> length page" "list_all isspace ws1" "list_all isspace ws2" "list_all isspace ws3"
    and "inner \<noteq> []"
    and "drop i page =
           py ''ytcfg.set('' @ ws1 @ ([123] @ inner @ [125]) @ ws2 @ [41] @ ws3 @ [59] @ rest"
  shows "embedded_construct_at page i ([123] @ inner @ [125])"
  unfolding embedded_construct_at_def using assms by blast

text \<open>
  With a direct literal in the page the result is the value of the first one; without
  any, the result comes from the first embedded-object construct alone.
\<close>

lemma extract_direct:
  assumes "first_direct_literal INNERTUBE_API_KEY html i v"
  shows "extract_innertube_api_key env html = Inr (PStr v)"
proof -
  from assms have "v \<noteq> []"
    unfolding first_direct_literal_def by (blast dest: direct_literal_value)
  with extract_string_first [OF assms] show ?thesis
    by (simp add: extract_unfold)
qed

lemma extract_embedded:
  assumes "no_direct_literal INNERTUBE_API_KEY html"
  shows "extract_innertube_api_key env html =
     (case ytcfg_search html of
        None \<Rightarrow> Inr PNone
      | Some g \<Rightarrow>
          (case json_loads env g of
             Inr (PDict kvs) \<Rightarrow>
               Inr (case map_of kvs INNERTUBE_API_KEY of Some v \<Rightarrow> v | None \<Rightarrow> PNone)
           | _ \<Rightarrow> Inr PNone))"
  using extract_string_none [OF assms] by (simp add: extract_unfold)

text \<open>
  Evaluation of the searches on a concrete page unfolds these definitions; in the pages
  below 92 is the backslash and 10 the line feed.
\<close>

lemmas rx_eval = extract_string_def ytcfg_search_def INNERTUBE_API_KEY_def re_search_group1_def
  group1_def py_def consume_def isspace_def upt_rec

section \<open>Claims about the extractor\<close>

subsection \<open>C1\<close>

lemma empty_key_page_literal:
  "extract_string INNERTUBE_API_KEY (py ''ytcfg.set({\"INNERTUBE_API_KEY\": \"\"});'') = PNone"
  by (simp add: rx_eval)

lemma empty_key_page_span:
  "ytcfg_search (py ''ytcfg.set({\"INNERTUBE_API_KEY\": \"\"});'')
     = Some (py ''{\"INNERTUBE_API_KEY\": \"\"}'')"
  by (simp add: rx_eval)

lemma empty_key_page_json:
  "json_loads \<lparr>max_depth = 1000, int_max_str_digits = 4300\<rparr>
     (py ''{\"INNERTUBE_API_KEY\": \"\"}'') = Inr (PDict [(INNERTUBE_API_KEY, PStr [])])"
  by code_simp

text \<open>
  C1, counterexample. The claim says that the extractor never returns an empty string.
  For the page \<open>ytcfg.set({"INNERTUBE_API_KEY": ""});\<close> the direct pattern does not match
  (its value needs at least one character), the embedded object is decoded, and the
  extractor returns the empty string stored under the key.
\<close>

theorem C1_empty_key_returned:
  "extract_innertube_api_key \<lparr>max_depth = 1000, int_max_str_digits = 4300\<rparr>
     (py ''ytcfg.set({\"INNERTUBE_API_KEY\": \"\"});'') = Inr (PStr [])"
  by (simp add: extract_unfold empty_key_page_literal empty_key_page_span empty_key_page_json)

text \<open>
  C1, as amended. Whenever the extractor returns a string, that string is either the
  value of the first direct literal of the page, which is non-empty and free of double
  quotes, or, only when the page has no direct literal, exactly the string that the decoded
  object of the first embedded-object construct stores under \<open>INNERTUBE_API_KEY\<close>: the
  complete value, never a part of it, but possibly empty.
\<close>

theorem C1_extracted_string_origin:
  assumes "extract_innertube_api_key env html = Inr (PStr s)"
  shows "(s \<noteq> [] \<and> 34 \<notin> set s \<and> (\<exists>i. first_direct_literal INNERTUBE_API_KEY html i s)) \<or>
         (no_direct_literal INNERTUBE_API_KEY html \<and>
          (\<exists>i g kvs. first_embedded_construct html i g \<and> json_loads env g = Inr (PDict kvs) \<and>
             map_of kvs INNERTUBE_API_KEY = Some (PStr s)))"
proof -
  from extract_string_cases [of INNERTUBE_API_KEY html]
  consider (none) "no_direct_literal INNERTUBE_API_KEY html"
    | (lit) i v where "first_direct_literal INNERTUBE_API_KEY html i v"
    by blast
  then show ?thesis
  proof cases
    case none
    note e = assms [unfolded extract_embedded [OF none]]
    from e obtain g where g: "ytcfg_search html = Some g"
      by (cases "ytcfg_search html") auto
    from first_embedded_construct_ex [OF g] obtain i where i: "first_embedded_construct html i g" ..
    from e g obtain kvs where k: "json_loads env g = Inr (PDict kvs)"
      by (auto split: sum.splits pyval.splits)
    with e g have "map_of kvs INNERTUBE_API_KEY = Some (PStr s)"
      by (auto split: option.splits)
    with none i k show ?thesis by blast
  next
    case lit
    from extract_direct [OF lit, of env] assms have "v = s" by simp
    with lit have "first_direct_literal INNERTUBE_API_KEY html i s" by simp
    moreover from this have "s \<noteq> [] \<and> 34 \<notin> set s"
      unfolding first_direct_literal_def by (blast dest: direct_literal_value)
    ultimately show ?thesis by blast
  qed
qed

text \<open>
  C1, witness: the theorem at the page of the counterexample, where the returned string
  is empty and therefore comes from the embedded object.
\<close>

theorem C1_extracted_string_origin_witness:
  "extract_innertube_api_key \<lparr>max_depth = 1000, int_max_str_digits = 4300\<rparr>
     (py ''ytcfg.set({\"INNERTUBE_API_KEY\": \"\"});'') = Inr (PStr []) \<and>
   no_direct_literal INNERTUBE_API_KEY (py ''ytcfg.set({\"INNERTUBE_API_KEY\": \"\"});'')"
proof -
  have e: "extract_innertube_api_key \<lparr>max_depth = 1000, int_max_str_digits = 4300\<rparr>
     (py ''ytcfg.set({\"INNERTUBE_API_KEY\": \"\"});'') = Inr (PStr [])"
    by (simp add: extract_unfold empty_key_page_literal empty_key_page_span empty_key_page_json)
  from C1_extracted_string_origin [OF e] e show ?thesis by simp
qed

subsection \<open>C2\<close>

text \<open>
  C2. For every page that contains a direct literal and an embedded-object construct,
  wherever the construct is, the extractor returns the value of the direct literal (of the
  first one, when there are several): the literal takes precedence regardless of position
  and of what the embedded object holds.
\<close>

theorem C2_direct_literal_precedence:
  assumes "first_direct_literal INNERTUBE_API_KEY html i v"
    and "embedded_construct_at html j g"
  shows "extract_innertube_api_key env html = Inr (PStr v)"
  using assms(1) by (rule extract_direct)

lemma both_forms_literal:
  "extract_string INNERTUBE_API_KEY
     (py ''ytcfg.set({\"INNERTUBE_API_KEY\": 5}); \"INNERTUBE_API_KEY\" : \"AIzaSy_abc-123\"'')
   = PStr (py ''AIzaSy_abc-123'')"
  by (simp add: rx_eval)

text \<open>
  C2, witness: the construct comes first and its object maps the key to 5; the result is
  the value of the literal that follows it.
\<close>

theorem C2_direct_literal_precedence_witness:
  "embedded_construct_at
     (py ''ytcfg.set({\"INNERTUBE_API_KEY\": 5}); \"INNERTUBE_API_KEY\" : \"AIzaSy_abc-123\"'')
     0 (py ''{\"INNERTUBE_API_KEY\": 5}'') \<and>
   extract_innertube_api_key \<lparr>max_depth = 1000, int_max_str_digits = 4300\<rparr>
     (py ''ytcfg.set({\"INNERTUBE_API_KEY\": 5}); \"INNERTUBE_API_KEY\" : \"AIzaSy_abc-123\"'')
   = Inr (PStr (py ''AIzaSy_abc-123''))"
proof -
  let ?page = "py ''ytcfg.set({\"INNERTUBE_API_KEY\": 5}); \"INNERTUBE_API_KEY\" : \"AIzaSy_abc-123\"''"
  from first_direct_literal_ex [OF both_forms_literal]
  obtain i where lit: "first_direct_literal INNERTUBE_API_KEY ?page i (py ''AIzaSy_abc-123'')" ..
  have con: "embedded_construct_at ?page 0 (py ''{\"INNERTUBE_API_KEY\": 5}'')"
    using embedded_construct_atI [of 0 ?page "[]" "[]" "[]" "py ''\"INNERTUBE_API_KEY\": 5''"
        "py '' \"INNERTUBE_API_KEY\" : \"AIzaSy_abc-123\"''"]
    by (simp add: py_def)
  from C2_direct_literal_precedence [OF lit con] con show ?thesis by simp
qed

subsection \<open>C3\<close>

lemma int_key_page_literal:
  "extract_string INNERTUBE_API_KEY (py ''ytcfg.set({\"INNERTUBE_API_KEY\": 5});'') = PNone"
  by (simp add: rx_eval)

lemma int_key_page_span:
  "ytcfg_search (py ''ytcfg.set({\"INNERTUBE_API_KEY\": 5});'')
     = Some (py ''{\"INNERTUBE_API_KEY\": 5}'')"
  by (simp add: rx_eval)

lemma int_key_page_json:
  "json_loads \<lparr>max_depth = 1000, int_max_str_digits = 4300\<rparr>
     (py ''{\"INNERTUBE_API_KEY\": 5}'') = Inr (PDict [(INNERTUBE_API_KEY, PInt 5)])"
  by code_simp

text \<open>
  C3. The claim says that the extractor returns a string or \<open>None\<close> and never
  raises. It never raises (\<open>extract_never_raises\<close>), and on a page without a direct
  literal it returns \<open>None\<close> when there is no construct or when the span of the first
  one does not decode (\<open>extract_embedded\<close>); but for the page
  \<open>ytcfg.set({"INNERTUBE_API_KEY": 5});\<close> it returns the integer 5, which is neither a
  string nor \<open>None\<close>, against the annotation \<open>str | None\<close> of the function.
\<close>

theorem C3_int_key_returned:
  "extract_innertube_api_key \<lparr>max_depth = 1000, int_max_str_digits = 4300\<rparr>
     (py ''ytcfg.set({\"INNERTUBE_API_KEY\": 5});'') = Inr (PInt 5)"
  by (simp add: extract_unfold int_key_page_literal int_key_page_span int_key_page_json)

subsection \<open>C4\<close>

text \<open>
  C4. For every page that contains a direct literal (the first one having value \<open>v\<close>)
  and no embedded-object construct, the extractor returns exactly \<open>v\<close>, whatever
  surrounds the literal.
\<close>

theorem C4_direct_literal_only:
  assumes "first_direct_literal INNERTUBE_API_KEY html i v"
    and "no_embedded_construct html"
  shows "extract_innertube_api_key env html = Inr (PStr v)"
  using assms(1) by (rule extract_direct)

lemma literal_page_literal:
  "extract_string INNERTUBE_API_KEY
     (py ''<script>var c = {\"INNERTUBE_API_KEY\":  \"AIzaSy_abc-123\", \"b\": 1};</script>'')
   = PStr (py ''AIzaSy_abc-123'')"
  by (simp add: rx_eval)

lemma literal_page_span:
  "ytcfg_search
     (py ''<script>var c = {\"INNERTUBE_API_KEY\":  \"AIzaSy_abc-123\", \"b\": 1};</script>'')
   = None"
  by (simp add: rx_eval)

text \<open>
  C4, witness: a literal inside a script element, with two spaces after the colon.
\<close>

theorem C4_direct_literal_only_witness:
  "extract_innertube_api_key \<lparr>max_depth = 1000, int_max_str_digits = 4300\<rparr>
     (py ''<script>var c = {\"INNERTUBE_API_KEY\":  \"AIzaSy_abc-123\", \"b\": 1};</script>'')
   = Inr (PStr (py ''AIzaSy_abc-123''))"
proof -
  from first_direct_literal_ex [OF literal_page_literal]
  obtain i where lit: "first_direct_literal INNERTUBE_API_KEY
     (py ''<script>var c = {\"INNERTUBE_API_KEY\":  \"AIzaSy_abc-123\", \"b\": 1};</script>'')
     i (py ''AIzaSy_abc-123'')" ..
  from C4_direct_literal_only [OF lit no_embedded_construct_eval [OF literal_page_span]]
  show ?thesis .
qed

subsection \<open>C5\<close>

lemma cut_span_literal:
  "extract_string INNERTUBE_API_KEY
     (py ''ytcfg.set({\"a\":\"});\",\"INNERTUBE_API_KE'' @ 92 # py ''u0059\":\"v\"});'') = PNone"
  by (simp add: rx_eval)

lemma cut_span_span:
  "ytcfg_search
     (py ''ytcfg.set({\"a\":\"});\",\"INNERTUBE_API_KE'' @ 92 # py ''u0059\":\"v\"});'')
   = Some (py ''{\"a\":\"}'')"
  by (simp add: rx_eval)

lemma cut_span_json:
  "json_loads \<lparr>max_depth = 1000, int_max_str_digits = 4300\<rparr> (py ''{\"a\":\"}'')
     = Inl JSONDecodeError"
  by code_simp

lemma whole_object_json:
  "json_loads \<lparr>max_depth = 1000, int_max_str_digits = 4300\<rparr>
     (py ''{\"a\":\"});\",\"INNERTUBE_API_KE'' @ 92 # py ''u0059\":\"v\"}'')
   = Inr (PDict [(py ''a'', PStr (py ''});'')), (INNERTUBE_API_KEY, PStr (py ''v''))])"
  by code_simp

text \<open>
  C5, counterexample. The page
  \<open>ytcfg.set({"a":"});","INNERTUBE_API_KE?":"v"});\<close>, where \<open>?\<close> stands for the
  escape of the letter Y (a backslash and \<open>u0059\<close>), has no direct literal and is one
  embedded-object construct whose JSON object maps
  \<open>INNERTUBE_API_KEY\<close> to \<open>"v"\<close>. The lazy pattern ends its span at the first closing
  brace that is followed by \<open>);\<close>, inside the first string, the span \<open>{"a":"}\<close> does not
  decode, and the extractor returns \<open>None\<close>.
\<close>

theorem C5_embedded_value_cut_short:
  "no_direct_literal INNERTUBE_API_KEY
     (py ''ytcfg.set({\"a\":\"});\",\"INNERTUBE_API_KE'' @ 92 # py ''u0059\":\"v\"});'') \<and>
   embedded_construct_at
     (py ''ytcfg.set({\"a\":\"});\",\"INNERTUBE_API_KE'' @ 92 # py ''u0059\":\"v\"});'') 0
     (py ''{\"a\":\"});\",\"INNERTUBE_API_KE'' @ 92 # py ''u0059\":\"v\"}'') \<and>
   json_loads \<lparr>max_depth = 1000, int_max_str_digits = 4300\<rparr>
     (py ''{\"a\":\"});\",\"INNERTUBE_API_KE'' @ 92 # py ''u0059\":\"v\"}'')
     = Inr (PDict [(py ''a'', PStr (py ''});'')), (INNERTUBE_API_KEY, PStr (py ''v''))]) \<and>
   extract_innertube_api_key \<lparr>max_depth = 1000, int_max_str_digits = 4300\<rparr>
     (py ''ytcfg.set({\"a\":\"});\",\"INNERTUBE_API_KE'' @ 92 # py ''u0059\":\"v\"});'')
     = Inr PNone"
proof -
  let ?page = "py ''ytcfg.set({\"a\":\"});\",\"INNERTUBE_API_KE'' @ 92 # py ''u0059\":\"v\"});''"
  have "embedded_construct_at ?page 0
     (py ''{\"a\":\"});\",\"INNERTUBE_API_KE'' @ 92 # py ''u0059\":\"v\"}'')"
    using embedded_construct_atI [of 0 ?page "[]" "[]" "[]"
        "py ''\"a\":\"});\",\"INNERTUBE_API_KE'' @ 92 # py ''u0059\":\"v\"''" "[]"]
    by (simp add: py_def)
  moreover have "extract_innertube_api_key \<lparr>max_depth = 1000, int_max_str_digits = 4300\<rparr>
     ?page = Inr PNone"
    by (simp add: extract_unfold cut_span_literal cut_span_span cut_span_json)
  ultimately show ?thesis
    using no_direct_literal_eval [OF cut_span_literal] whole_object_json by simp
qed

text \<open>
  C5, as amended. For every page with no direct literal whose first embedded-object
  construct (the leftmost one, with the shortest span that ends at a closing brace followed
  by optional whitespace, a closing parenthesis, optional whitespace and a semicolon)
  decodes to an object that maps \<open>INNERTUBE_API_KEY\<close> to the string \<open>v\<close>, the
  extractor returns \<open>v\<close>.
\<close>

theorem C5_embedded_value:
  assumes "no_direct_literal INNERTUBE_API_KEY html"
    and "first_embedded_construct html i g"
    and "json_loads env g = Inr (PDict kvs)"
    and "map_of kvs INNERTUBE_API_KEY = Some (PStr v)"
  shows "extract_innertube_api_key env html = Inr (PStr v)"
  using assms(3,4) ytcfg_search_first [OF assms(2)]
  by (simp add: extract_embedded [OF assms(1)])

lemma multiline_literal:
  "extract_string INNERTUBE_API_KEY
     (py ''ytcfg.set('' @ 10 # py '' {\"INNERTUBE_API_KE'' @ 92 # py ''u0059\":'' @ 10 #
          py '' \"v\", \"n\": {\"a\": 1}}'' @ 10 # py '') ;'') = PNone"
  by (simp add: rx_eval)

lemma multiline_span:
  "ytcfg_search
     (py ''ytcfg.set('' @ 10 # py '' {\"INNERTUBE_API_KE'' @ 92 # py ''u0059\":'' @ 10 #
          py '' \"v\", \"n\": {\"a\": 1}}'' @ 10 # py '') ;'')
   = Some (py ''{\"INNERTUBE_API_KE'' @ 92 # py ''u0059\":'' @ 10 #
          py '' \"v\", \"n\": {\"a\": 1}}'')"
  by (simp add: rx_eval)

lemma multiline_json:
  "json_loads \<lparr>max_depth = 1000, int_max_str_digits = 4300\<rparr>
     (py ''{\"INNERTUBE_API_KE'' @ 92 # py ''u0059\":'' @ 10 #
          py '' \"v\", \"n\": {\"a\": 1}}'')
   = Inr (PDict [(INNERTUBE_API_KEY, PStr (py ''v'')), (py ''n'', PDict [(py ''a'', PInt 1)])])"
  by code_simp

text \<open>
  C5, witness: a construct that spans four lines, with a nested object.
\<close>

theorem C5_embedded_value_witness:
  "extract_innertube_api_key \<lparr>max_depth = 1000, int_max_str_digits = 4300\<rparr>
     (py ''ytcfg.set('' @ 10 # py '' {\"INNERTUBE_API_KE'' @ 92 # py ''u0059\":'' @ 10 #
          py '' \"v\", \"n\": {\"a\": 1}}'' @ 10 # py '') ;'') = Inr (PStr (py ''v''))"
proof -
  from first_embedded_construct_ex [OF multiline_span]
  obtain i where con: "first_embedded_construct
     (py ''ytcfg.set('' @ 10 # py '' {\"INNERTUBE_API_KE'' @ 92 # py ''u0059\":'' @ 10 #
          py '' \"v\", \"n\": {\"a\": 1}}'' @ 10 # py '') ;'') i
     (py ''{\"INNERTUBE_API_KE'' @ 92 # py ''u0059\":'' @ 10 #
          py '' \"v\", \"n\": {\"a\": 1}}'')" ..
  have "map_of [(INNERTUBE_API_KEY, PStr (py ''v'')), (py ''n'', PDict [(py ''a'', PInt 1)])]
      INNERTUBE_API_KEY = Some (PStr (py ''v''))"
    by simp
  from C5_embedded_value [OF no_direct_literal_eval [OF multiline_literal] con multiline_json this]
  show ?thesis .
qed

subsection \<open>C10\<close>

lemma oops_json:
  "json_loads \<lparr>max_depth = 1000, int_max_str_digits = 4300\<rparr> (py ''{oops}'')
     = Inl JSONDecodeError"
  by code_simp

lemma later_literal_literal:
  "extract_string INNERTUBE_API_KEY
     (py ''ytcfg.set({oops}); ytcfg.set({\"INNERTUBE_API_KEY\": \"AIza\"});'')
   = PStr (py ''AIza'')"
  by (simp add: rx_eval)

lemma later_literal_span:
  "ytcfg_search (py ''ytcfg.set({oops}); ytcfg.set({\"INNERTUBE_API_KEY\": \"AIza\"});'')
     = Some (py ''{oops}'')"
  by (simp add: rx_eval)

text \<open>
  C10, counterexample. The claim says that the extractor returns \<open>None\<close> whenever the
  span of the first match does not decode, even when a later construct holds the key. In
  the page \<open>ytcfg.set({oops}); ytcfg.set({"INNERTUBE_API_KEY": "AIza"});\<close> the span of the
  first match is \<open>{oops}\<close>, which does not decode, but the later construct holds the key
  as a direct literal, the first pattern finds it before the second is tried, and the
  extractor returns \<open>AIza\<close>.
\<close>

theorem C10_later_literal_returned:
  "ytcfg_search (py ''ytcfg.set({oops}); ytcfg.set({\"INNERTUBE_API_KEY\": \"AIza\"});'')
     = Some (py ''{oops}'') \<and>
   json_loads \<lparr>max_depth = 1000, int_max_str_digits = 4300\<rparr> (py ''{oops}'')
     = Inl JSONDecodeError \<and>
   extract_innertube_api_key \<lparr>max_depth = 1000, int_max_str_digits = 4300\<rparr>
     (py ''ytcfg.set({oops}); ytcfg.set({\"INNERTUBE_API_KEY\": \"AIza\"});'')
     = Inr (PStr (py ''AIza''))"
proof -
  have ne: "py ''AIza'' \<noteq> []"
    by (simp add: py_def)
  have "extract_innertube_api_key \<lparr>max_depth = 1000, int_max_str_digits = 4300\<rparr>
     (py ''ytcfg.set({oops}); ytcfg.set({\"INNERTUBE_API_KEY\": \"AIza\"});'')
     = Inr (PStr (py ''AIza''))"
    by (simp add: extract_unfold later_literal_literal ne)
  with later_literal_span oops_json show ?thesis by simp
qed

text \<open>
  C10, as amended. Only the first embedded-object construct is ever decoded: for every
  page with no direct literal, if the span of the first construct does not decode, the
  extractor returns \<open>None\<close> without trying any later construct, even when the object of a
  later construct is valid and holds the key.
\<close>

theorem C10_first_construct_only:
  assumes "no_direct_literal INNERTUBE_API_KEY html"
    and "first_embedded_construct html i g"
    and "json_loads env g = Inl e"
  shows "extract_innertube_api_key env html = Inr PNone"
  using assms(3) ytcfg_search_first [OF assms(2)]
  by (simp add: extract_embedded [OF assms(1)])

lemma two_constructs_literal:
  "extract_string INNERTUBE_API_KEY
     (py ''ytcfg.set({oops}); ytcfg.set({\"INNERTUBE_API_KEY\": 5});'') = PNone"
  by (simp add: rx_eval)

lemma two_constructs_span:
  "ytcfg_search (py ''ytcfg.set({oops}); ytcfg.set({\"INNERTUBE_API_KEY\": 5});'')
     = Some (py ''{oops}'')"
  by (simp add: rx_eval)

lemma later_json:
  "json_loads \<lparr>max_depth = 1000, int_max_str_digits = 4300\<rparr>
     (py ''{\"INNERTUBE_API_KEY\": 5}'') = Inr (PDict [(INNERTUBE_API_KEY, PInt 5)])"
  by code_simp

text \<open>
  C10, witness: the first span is \<open>{oops}\<close>; a second construct at position 19 holds
  a valid object with the key, and the result is still \<open>None\<close>.
\<close>

theorem C10_first_construct_only_witness:
  "embedded_construct_at (py ''ytcfg.set({oops}); ytcfg.set({\"INNERTUBE_API_KEY\": 5});'') 19
     (py ''{\"INNERTUBE_API_KEY\": 5}'') \<and>
   json_loads \<lparr>max_depth = 1000, int_max_str_digits = 4300\<rparr>
     (py ''{\"INNERTUBE_API_KEY\": 5}'') = Inr (PDict [(INNERTUBE_API_KEY, PInt 5)]) \<and>
   extract_innertube_api_key \<lparr>max_depth = 1000, int_max_str_digits = 4300\<rparr>
     (py ''ytcfg.set({oops}); ytcfg.set({\"INNERTUBE_API_KEY\": 5});'') = Inr PNone"
proof -
  let ?page = "py ''ytcfg.set({oops}); ytcfg.set({\"INNERTUBE_API_KEY\": 5});''"
  from first_embedded_construct_ex [OF two_constructs_span]
  obtain i where con: "first_embedded_construct ?page i (py ''{oops}'')" ..
  have later: "embedded_construct_at ?page 19 (py ''{\"INNERTUBE_API_KEY\": 5}'')"
    using embedded_construct_atI [of 19 ?page "[]" "[]" "[]" "py ''\"INNERTUBE_API_KEY\": 5''" "[]"]
    by (simp add: py_def)
  from C10_first_construct_only [OF no_direct_literal_eval [OF two_constructs_literal] con oops_json]
    later later_json
  show ?thesis by simp
qed

section \<open>Claims about the probe sequence\<close>

text \<open>
  One pass through the loop: a source that yields no key is skipped, a source whose body
  gives a key that can be printed ends the loop, and only a key that counts as true is
  ever returned.
\<close>

lemma source_fails_yields_no_key: "source_fails r \<Longrightarrow> yields_no_key env r"
  by (auto simp: source_fails_def yields_no_key_def split: sum.splits)

lemma urls_encodable:
  "urls_to_try = [u1, u2, u3] \<Longrightarrow> encodable u1 \<and> encodable u2 \<and> encodable u3"
  by (auto simp: urls_to_try_def encodable_def py_def)

lemma try_url_no_key:
  assumes "yields_no_key env (get (fetched w) url)" and "encodable url"
  shows "try_url get env url w =
     (Next, \<lparr>fetched = fetched w @ [url],
             printed = printed w @ [Trying url] @ fault_line url (get (fetched w) url)\<rparr>)"
proof (cases "get (fetched w) url")
  case (Inl e)
  with assms show ?thesis
    by (simp add: try_url_def try_body_def py_print_def yields_no_key_def fault_line_def Let_def)
next
  case (Inr resp)
  obtain key where key: "extract_innertube_api_key env (resp_text resp) = Inr key"
    using extract_never_raises by blast
  with assms Inr show ?thesis
    by (auto simp: try_url_def try_body_def py_print_def yields_no_key_def fault_line_def Let_def)
qed

lemma try_url_found:
  assumes "get (fetched w) url = Inr resp" "status_code resp = 200"
    and "extract_innertube_api_key env (resp_text resp) = Inr key" "truthy key"
    and "encodable url" "printable (Found key)"
  shows "try_url get env url w =
     (Return key, \<lparr>fetched = fetched w @ [url], printed = printed w @ [Trying url, Found key]\<rparr>)"
  using assms by (simp add: try_url_def try_body_def py_print_def Let_def)

lemma try_body_Return_truthy: "try_body get env url w = (Inr (Return key), w') \<Longrightarrow> truthy key"
  by (auto simp: try_body_def py_print_def Let_def split: sum.splits if_splits)

lemma try_url_Return_truthy: "try_url get env url w = (Return key, w') \<Longrightarrow> truthy key"
  by (auto simp: try_url_def py_print_def split: prod.splits sum.splits if_splits
      dest: try_body_Return_truthy)

lemma for_urls_Return_truthy: "for_urls get env urls w = (Return key, w') \<Longrightarrow> truthy key"
proof (induction urls arbitrary: w)
  case Nil
  then show ?case by simp
next
  case (Cons url urls)
  obtain f w1 where t: "try_url get env url w = (f, w1)" by (cases "try_url get env url w")
  show ?case
  proof (cases f)
    case (Return k)
    with Cons.prems t have "k = key" by simp
    with t Return show ?thesis by (auto dest: try_url_Return_truthy)
  next
    case (Raise e)
    with Cons.prems t show ?thesis by simp
  next
    case Next
    with Cons.prems t have "for_urls get env urls w1 = (Return key, w')" by simp
    then show ?thesis by (rule Cons.IH)
  qed
qed

subsection \<open>C6\<close>

lemma surrogate_page_literal:
  "extract_string INNERTUBE_API_KEY (py ''\"INNERTUBE_API_KEY\":\"'' @ 55296 # py ''\"'')
     = PStr [55296]"
  by (simp add: rx_eval)

text \<open>
  C6, counterexample. The claim says that the value of the literal in the third body is
  returned, and that a fault is treated like a non-success response, logged and skipped.
  Here the first source raises, the second answers 503 and the third answers 200 with a
  direct literal whose value is the single code point U+D800. The \<open>print\<close> of the key is
  inside the \<open>try\<close> block and raises \<open>UnicodeEncodeError\<close>, the \<open>except\<close> clause treats
  the source as failed, and the function returns \<open>None\<close>. The log also shows that the fault
  of the first source printed a line and the status of the second did not.
\<close>

theorem C6_unprintable_key_lost:
  "direct_literal_at INNERTUBE_API_KEY (py ''\"INNERTUBE_API_KEY\":\"'' @ 55296 # py ''\"'') 0 [55296] \<and>
   get_fresh_innertube_key
     (\<lambda>hist url.
        if url = py ''https://www.youtube.com/tv'' then Inl RequestException
        else if url = py ''https://www.youtube.com/''
        then Inr \<lparr>status_code = 503, resp_text = []\<rparr>
        else Inr \<lparr>status_code = 200,
                   resp_text = py ''\"INNERTUBE_API_KEY\":\"'' @ 55296 # py ''\"''\<rparr>)
     \<lparr>max_depth = 1000, int_max_str_digits = 4300\<rparr>
     \<lparr>fetched = [], printed = []\<rparr>
   = (Inr PNone,
      \<lparr>fetched = [py ''https://www.youtube.com/tv'', py ''https://www.youtube.com/'',
                  py ''https://www.youtube.com/embed/''],
       printed = [Trying (py ''https://www.youtube.com/tv''),
                  ErrorRequesting (py ''https://www.youtube.com/tv'') RequestException,
                  Trying (py ''https://www.youtube.com/''),
                  Trying (py ''https://www.youtube.com/embed/''),
                  ErrorRequesting (py ''https://www.youtube.com/embed/'') UnicodeEncodeError,
                  CouldNotFind]\<rparr>)"
proof -
  have lit: "direct_literal_at INNERTUBE_API_KEY
      (py ''\"INNERTUBE_API_KEY\":\"'' @ 55296 # py ''\"'') 0 [55296]"
    unfolding direct_literal_at_def
    by (intro conjI exI [of _ "[]"]) (simp_all add: INNERTUBE_API_KEY_def py_def)
  have ex: "extract_innertube_api_key \<lparr>max_depth = 1000, int_max_str_digits = 4300\<rparr>
      (py ''\"INNERTUBE_API_KEY\":\"'' @ 55296 # py ''\"'') = Inr (PStr [55296])"
    by (simp add: extract_unfold surrogate_page_literal)
  have ne: "py ''https://www.youtube.com/'' \<noteq> py ''https://www.youtube.com/tv''"
    "py ''https://www.youtube.com/embed/'' \<noteq> py ''https://www.youtube.com/tv''"
    "py ''https://www.youtube.com/embed/'' \<noteq> py ''https://www.youtube.com/''"
    by (simp_all add: py_def)
  have enc: "encodable (py ''https://www.youtube.com/tv'')"
    "encodable (py ''https://www.youtube.com/'')"
    "encodable (py ''https://www.youtube.com/embed/'')"
    by (simp_all add: encodable_def py_def)
  show ?thesis
    using lit ne enc
    by (simp add: get_fresh_innertube_key_def urls_to_try_def try_url_def try_body_def
        py_print_def Let_def ex encodable_def [of "[55296]"])
qed

text \<open>
  C6, as amended. If the first two sources fail, by a non-success status or by a fault
  that raises, and the body of the third holds a direct literal whose value standard
  output can encode, then \<open>get_fresh_innertube_key\<close> returns the value of that literal and
  has fetched the three URLs once each, in order, and nothing else; a fault is caught and
  printed as one line, a non-success status prints no line, and after either the loop goes
  on to the next source.
\<close>

theorem C6_third_source_wins:
  assumes urls: "urls_to_try = [u1, u2, u3]"
    and f1: "source_fails (get (fetched w) u1)"
    and f2: "source_fails (get (fetched w @ [u1]) u2)"
    and r3: "get (fetched w @ [u1, u2]) u3 = Inr resp" "status_code resp = 200"
    and lit: "first_direct_literal INNERTUBE_API_KEY (resp_text resp) i v"
    and enc: "encodable v"
  shows "get_fresh_innertube_key get env w =
     (Inr (PStr v),
      \<lparr>fetched = fetched w @ [u1, u2, u3],
       printed = printed w
         @ [Trying u1] @ fault_line u1 (get (fetched w) u1)
         @ [Trying u2] @ fault_line u2 (get (fetched w @ [u1]) u2)
         @ [Trying u3, Found (PStr v)]\<rparr>)"
proof -
  let ?w1 = "\<lparr>fetched = fetched w @ [u1],
             printed = printed w @ [Trying u1] @ fault_line u1 (get (fetched w) u1)\<rparr>"
  let ?w2 = "\<lparr>fetched = fetched ?w1 @ [u2],
             printed = printed ?w1 @ [Trying u2] @ fault_line u2 (get (fetched ?w1) u2)\<rparr>"
  have u: "encodable u1" "encodable u2" "encodable u3"
    using urls_encodable [OF urls] by simp_all
  have 1: "try_url get env u1 w = (Next, ?w1)"
    using f1 u(1) by (intro try_url_no_key source_fails_yields_no_key)
  have 2: "try_url get env u2 ?w1 = (Next, ?w2)"
    using f2 u(2) by (intro try_url_no_key source_fails_yields_no_key) simp_all
  have v: "v \<noteq> []"
    using lit unfolding first_direct_literal_def by (blast dest: direct_literal_value)
  have 3: "try_url get env u3 ?w2 =
      (Return (PStr v), \<lparr>fetched = fetched ?w2 @ [u3],
                         printed = printed ?w2 @ [Trying u3, Found (PStr v)]\<rparr>)"
    using r3 v enc u(3) extract_direct [OF lit, of env] by (intro try_url_found) simp_all
  show ?thesis
    by (simp only: get_fresh_innertube_key_def urls for_urls.simps 1 2 3 prod.case flow.case)
      simp
qed

lemma third_page_literal:
  "extract_string INNERTUBE_API_KEY (py ''{\"INNERTUBE_API_KEY\":\"k3\"}'') = PStr (py ''k3'')"
  by (simp add: rx_eval)

text \<open>
  C6, witness: the first request raises, and a second request to any URL but the last
  would answer 503 with a key in its body; the result is the key of the third source.
\<close>

theorem C6_third_source_wins_witness:
  "get_fresh_innertube_key
     (\<lambda>hist url.
        if url = py ''https://www.youtube.com/embed/''
        then Inr \<lparr>status_code = 200, resp_text = py ''{\"INNERTUBE_API_KEY\":\"k3\"}''\<rparr>
        else if hist = [] then Inl RequestException
        else Inr \<lparr>status_code = 503, resp_text = py ''{\"INNERTUBE_API_KEY\":\"k0\"}''\<rparr>)
     \<lparr>max_depth = 1000, int_max_str_digits = 4300\<rparr>
     \<lparr>fetched = [], printed = []\<rparr>
   = (Inr (PStr (py ''k3'')),
      \<lparr>fetched = [py ''https://www.youtube.com/tv'', py ''https://www.youtube.com/'',
                  py ''https://www.youtube.com/embed/''],
       printed = [Trying (py ''https://www.youtube.com/tv''),
                  ErrorRequesting (py ''https://www.youtube.com/tv'') RequestException,
                  Trying (py ''https://www.youtube.com/''),
                  Trying (py ''https://www.youtube.com/embed/''),
                  Found (PStr (py ''k3''))]\<rparr>)"
proof -
  let ?get = "\<lambda>hist url.
        if url = py ''https://www.youtube.com/embed/''
        then Inr \<lparr>status_code = 200, resp_text = py ''{\"INNERTUBE_API_KEY\":\"k3\"}''\<rparr>
        else if hist = [] then Inl RequestException
        else Inr \<lparr>status_code = 503, resp_text = py ''{\"INNERTUBE_API_KEY\":\"k0\"}''\<rparr>"
  let ?w = "\<lparr>fetched = [], printed = []\<rparr>"
  from first_direct_literal_ex [OF third_page_literal]
  obtain i where lit: "first_direct_literal INNERTUBE_API_KEY
      (py ''{\"INNERTUBE_API_KEY\":\"k3\"}'') i (py ''k3'')" ..
  have urls: "urls_to_try = [py ''https://www.youtube.com/tv'', py ''https://www.youtube.com/'',
                  py ''https://www.youtube.com/embed/'']"
    by (simp add: urls_to_try_def)
  have ne: "py ''https://www.youtube.com/tv'' \<noteq> py ''https://www.youtube.com/embed/''"
    "py ''https://www.youtube.com/'' \<noteq> py ''https://www.youtube.com/embed/''"
    by (simp_all add: py_def)
  have f1: "source_fails (?get (fetched ?w) (py ''https://www.youtube.com/tv''))"
    using ne by (simp add: source_fails_def)
  have f2: "source_fails (?get (fetched ?w @ [py ''https://www.youtube.com/tv''])
      (py ''https://www.youtube.com/''))"
    using ne by (simp add: source_fails_def)
  have r3: "?get (fetched ?w @ [py ''https://www.youtube.com/tv'', py ''https://www.youtube.com/''])
      (py ''https://www.youtube.com/embed/'')
      = Inr \<lparr>status_code = 200, resp_text = py ''{\"INNERTUBE_API_KEY\":\"k3\"}''\<rparr>"
    by simp
  have l3: "first_direct_literal INNERTUBE_API_KEY
      (resp_text \<lparr>status_code = 200, resp_text = py ''{\"INNERTUBE_API_KEY\":\"k3\"}''\<rparr>) i (py ''k3'')"
    using lit by simp
  have enc: "encodable (py ''k3'')"
    by (simp add: encodable_def py_def)
  from C6_third_source_wins [of _ _ _ ?get ?w, OF urls f1 f2 r3 _ l3 enc] ne
  show ?thesis
    by (simp add: fault_line_def)
qed

subsection \<open>C7\<close>

text \<open>
  C7. If no source yields a key (non-success status, fault, or nothing extracted),
  \<open>get_fresh_innertube_key\<close> fetches every source once, in the order of the list, prints
  that no key was found and returns \<open>None\<close> as a value, without raising.
\<close>

theorem C7_all_sources_exhausted:
  assumes urls: "urls_to_try = [u1, u2, u3]"
    and n1: "yields_no_key env (get (fetched w) u1)"
    and n2: "yields_no_key env (get (fetched w @ [u1]) u2)"
    and n3: "yields_no_key env (get (fetched w @ [u1, u2]) u3)"
  shows "get_fresh_innertube_key get env w =
     (Inr PNone,
      \<lparr>fetched = fetched w @ [u1, u2, u3],
       printed = printed w
         @ [Trying u1] @ fault_line u1 (get (fetched w) u1)
         @ [Trying u2] @ fault_line u2 (get (fetched w @ [u1]) u2)
         @ [Trying u3] @ fault_line u3 (get (fetched w @ [u1, u2]) u3)
         @ [CouldNotFind]\<rparr>)"
proof -
  let ?w1 = "\<lparr>fetched = fetched w @ [u1],
             printed = printed w @ [Trying u1] @ fault_line u1 (get (fetched w) u1)\<rparr>"
  let ?w2 = "\<lparr>fetched = fetched ?w1 @ [u2],
             printed = printed ?w1 @ [Trying u2] @ fault_line u2 (get (fetched ?w1) u2)\<rparr>"
  let ?w3 = "\<lparr>fetched = fetched ?w2 @ [u3],
             printed = printed ?w2 @ [Trying u3] @ fault_line u3 (get (fetched ?w2) u3)\<rparr>"
  have u: "encodable u1" "encodable u2" "encodable u3"
    using urls_encodable [OF urls] by simp_all
  have 1: "try_url get env u1 w = (Next, ?w1)"
    using n1 u(1) by (rule try_url_no_key)
  have 2: "try_url get env u2 ?w1 = (Next, ?w2)"
    using n2 u(2) by (intro try_url_no_key) simp_all
  have 3: "try_url get env u3 ?w2 = (Next, ?w3)"
    using n3 u(3) by (intro try_url_no_key) simp_all
  show ?thesis
    by (simp only: get_fresh_innertube_key_def urls for_urls.simps 1 2 3 prod.case flow.case)
      (simp add: py_print_def)
qed

lemma miss_page:
  "extract_innertube_api_key \<lparr>max_depth = 1000, int_max_str_digits = 4300\<rparr>
     (py ''<html>no key</html>'') = Inr PNone"
proof -
  have "extract_string INNERTUBE_API_KEY (py ''<html>no key</html>'') = PNone"
    by (simp add: rx_eval)
  moreover have "ytcfg_search (py ''<html>no key</html>'') = None"
    by (simp add: rx_eval)
  ultimately show ?thesis
    by (simp add: extract_unfold)
qed

text \<open>
  C7, witness: a fault, a 404 and a page without a key.
\<close>

theorem C7_all_sources_exhausted_witness:
  "get_fresh_innertube_key
     (\<lambda>hist url.
        if url = py ''https://www.youtube.com/tv'' then Inl RequestException
        else if url = py ''https://www.youtube.com/''
        then Inr \<lparr>status_code = 404, resp_text = []\<rparr>
        else Inr \<lparr>status_code = 200, resp_text = py ''<html>no key</html>''\<rparr>)
     \<lparr>max_depth = 1000, int_max_str_digits = 4300\<rparr>
     \<lparr>fetched = [], printed = []\<rparr>
   = (Inr PNone,
      \<lparr>fetched = [py ''https://www.youtube.com/tv'', py ''https://www.youtube.com/'',
                  py ''https://www.youtube.com/embed/''],
       printed = [Trying (py ''https://www.youtube.com/tv''),
                  ErrorRequesting (py ''https://www.youtube.com/tv'') RequestException,
                  Trying (py ''https://www.youtube.com/''),
                  Trying (py ''https://www.youtube.com/embed/''),
                  CouldNotFind]\<rparr>)"
proof -
  let ?get = "\<lambda>hist url.
        if url = py ''https://www.youtube.com/tv'' then Inl RequestException
        else if url = py ''https://www.youtube.com/''
        then Inr \<lparr>status_code = 404, resp_text = []\<rparr>
        else Inr \<lparr>status_code = 200, resp_text = py ''<html>no key</html>''\<rparr>"
  let ?w = "\<lparr>fetched = [], printed = []\<rparr>"
  let ?env = "\<lparr>max_depth = 1000, int_max_str_digits = 4300\<rparr>"
  have urls: "urls_to_try = [py ''https://www.youtube.com/tv'', py ''https://www.youtube.com/'',
                  py ''https://www.youtube.com/embed/'']"
    by (simp add: urls_to_try_def)
  have ne: "py ''https://www.youtube.com/'' \<noteq> py ''https://www.youtube.com/tv''"
    "py ''https://www.youtube.com/embed/'' \<noteq> py ''https://www.youtube.com/tv''"
    "py ''https://www.youtube.com/embed/'' \<noteq> py ''https://www.youtube.com/''"
    by (simp_all add: py_def)
  have n1: "yields_no_key ?env (?get (fetched ?w) (py ''https://www.youtube.com/tv''))"
    by (simp add: yields_no_key_def)
  have n2: "yields_no_key ?env (?get (fetched ?w @ [py ''https://www.youtube.com/tv''])
      (py ''https://www.youtube.com/''))"
    using ne by (simp add: yields_no_key_def)
  have n3: "yields_no_key ?env
      (?get (fetched ?w @ [py ''https://www.youtube.com/tv'', py ''https://www.youtube.com/''])
      (py ''https://www.youtube.com/embed/''))"
    using ne by (simp add: yields_no_key_def miss_page)
  from C7_all_sources_exhausted [of _ _ _ ?env ?get ?w, OF urls n1 n2 n3] ne
  show ?thesis
    by (simp add: fault_line_def)
qed

subsection \<open>C9\<close>

text \<open>
  An empty string from the extractor is skipped, and the function never returns one.
\<close>

lemma empty_string_skipped:
  assumes "get (fetched w) url = Inr resp" "status_code resp = 200"
    and "extract_innertube_api_key env (resp_text resp) = Inr (PStr [])"
    and "encodable url"
  shows "fst (try_url get env url w) = Next"
  using assms by (simp add: try_url_def try_body_def py_print_def Let_def)

lemma get_fresh_never_empty:
  "fst (get_fresh_innertube_key get env w) \<noteq> Inr (PStr [])"
proof
  assume a: "fst (get_fresh_innertube_key get env w) = Inr (PStr [])"
  obtain f w1 where t: "for_urls get env urls_to_try w = (f, w1)"
    by (cases "for_urls get env urls_to_try w")
  with a have "f = Return (PStr [])"
    by (cases f) (auto simp: get_fresh_innertube_key_def split: sum.splits)
  with t have "truthy (PStr [])" by (auto dest: for_urls_Return_truthy)
  then show False by simp
qed

text \<open>
  C9. The claim says that every key \<open>get_fresh_innertube_key\<close> returns is a non-empty
  string. The two lemmas above give the part about the empty string; but when the first
  source answers 200 with the body \<open>ytcfg.set({"INNERTUBE_API_KEY": 5});\<close> the function
  returns the integer 5, against its annotation \<open>str | None\<close>.
\<close>

theorem C9_int_key_reaches_caller:
  "fst (get_fresh_innertube_key
     (\<lambda>hist url. Inr \<lparr>status_code = 200,
                        resp_text = py ''ytcfg.set({\"INNERTUBE_API_KEY\": 5});''\<rparr>)
     \<lparr>max_depth = 1000, int_max_str_digits = 4300\<rparr>
     \<lparr>fetched = [], printed = []\<rparr>) = Inr (PInt 5)"
proof -
  have "encodable (py ''https://www.youtube.com/tv'')"
    by (simp add: encodable_def py_def)
  then show ?thesis
    by (simp add: get_fresh_innertube_key_def urls_to_try_def try_url_def try_body_def
        py_print_def Let_def extract_unfold
        int_key_page_literal int_key_page_span int_key_page_json)
qed

section \<open>Claims about operator input\<close>

lemma split_comma_nonempty: "split_comma s \<noteq> []"
  by (induction s) (auto split: list.splits)

lemma split_comma_no_comma: "44 \<notin> set f \<Longrightarrow> split_comma f = [f]"
  by (induction f) auto

lemma split_comma_append:
  "44 \<notin> set f \<Longrightarrow> split_comma (f @ 44 # s) = f # split_comma s"
  by (induction f) auto

lemma split_join:
  "entries \<noteq> [] \<Longrightarrow> \<forall>f\<in>set entries. 44 \<notin> set f \<Longrightarrow> split_comma (join_comma entries) = entries"
proof (induction entries rule: join_comma.induct)
  case 1
  then show ?case by simp
next
  case (2 f)
  then show ?case by (simp add: split_comma_no_comma)
next
  case (3 f g fs)
  then show ?case by (simp add: split_comma_append)
qed

lemma strip_Nil: "strip [] = []"
  by (simp add: strip_def)

lemma ask_for_api_keys_fst:
  "fst (ask_for_api_keys line) =
     map strip (filter (\<lambda>k. strip k \<noteq> []) (split_comma (strip line)))"
  by (simp add: ask_for_api_keys_def Let_def strip_Nil)

subsection \<open>C8\<close>

text \<open>
  C8. When the stripped input line is the entries \<open>entries\<close> joined by commas, the keys
  are the entries stripped of whitespace, without those that are empty or whitespace only,
  in their order; in particular the line \<open>a, b ,,c\<close> gives \<open>a\<close>, \<open>b\<close>, \<open>c\<close>.
\<close>

theorem C8_api_keys_from_line:
  assumes "entries \<noteq> []" "\<forall>f\<in>set entries. 44 \<notin> set f" "strip line = join_comma entries"
  shows "fst (ask_for_api_keys line) = map strip (filter (\<lambda>f. strip f \<noteq> []) entries) \<and>
         fst (ask_for_api_keys (py ''a, b ,,c'')) = [py ''a'', py ''b'', py ''c'']"
proof
  show "fst (ask_for_api_keys line) = map strip (filter (\<lambda>f. strip f \<noteq> []) entries)"
    using split_join [OF assms(1,2)] assms(3) by (simp add: ask_for_api_keys_fst)
  show "fst (ask_for_api_keys (py ''a, b ,,c'')) = [py ''a'', py ''b'', py ''c'']"
    by (simp add: ask_for_api_keys_def strip_def py_def isspace_def Let_def)
qed

text \<open>
  C8, witness: four entries, one of them blank, in a line with outer whitespace.
\<close>

theorem C8_api_keys_from_line_witness:
  "fst (ask_for_api_keys (py ''  k1 ,k2,  , k3 '')) = [py ''k1'', py ''k2'', py ''k3'']"
  using C8_api_keys_from_line [of "[py ''k1 '', py ''k2'', py ''  '', py '' k3'']" "py ''  k1 ,k2,  , k3 ''"]
  by (simp add: strip_def py_def isspace_def)

end
